theory Spec2Isabelle
  imports Main
begin

section \<open>JavaScript values handled by the cart widget\<close>

text \<open>
  The widget in \<^verbatim>\<open>src/pizzaz-shop/index.tsx\<close> reads three host globals
  (\<^verbatim>\<open>toolInput\<close>, \<^verbatim>\<open>toolOutput\<close>, \<^verbatim>\<open>widgetState\<close>) whose static type is
  \<^verbatim>\<open>unknown\<close>, and guards every read dynamically. The embedding therefore works on
  untyped values: every function below takes any value, and a read or a call that
  JavaScript would reject returns an error.

  \<^item> A number is a double of integer value (the cart only counts, and
    \<^verbatim>\<open>CartItem.quantity\<close> is declared a number), written as that integer. Addition
    rounds as the double addition of line 88 does (\<open>roundDouble\<close> below), so it is
    the sum of the integers up to \<open>2 ^ 53\<close>. A number is printed in decimal digits,
    as \<^verbatim>\<open>JSON.stringify\<close> prints it below \<open>10 ^ 21\<close>.
  \<^item> An object is the list of its own properties in insertion order; a later binding of
    a name overrides an earlier one, as in an object literal or in JSON text.
    (JavaScript lists property names that are array indices first; the embedding keeps
    them where they were inserted, which matters only for the text of a serialization
    of an object that mixes both kinds of names.)
  \<^item> A \<^verbatim>\<open>bigint\<close> stands for the values that \<^verbatim>\<open>JSON.stringify\<close> rejects.
  \<^item> Values are compared by structure. For the primitives this is \<^verbatim>\<open>===\<close>; objects
    are only ever compared as keys of the \<^verbatim>\<open>Map\<close> of the merge, whose keys are item
    names (declared strings).
\<close>

datatype jsval =
    JUndefined
  | JNull
  | JBool bool
  | JNum int
  | JBigInt int
  | JStr string
  | JArr "jsval list"
  | JObj "(string \<times> jsval) list"

text \<open>
  \<open>TypeError\<close> is the exception JavaScript raises on a property read of
  \<^verbatim>\<open>null\<close>/\<^verbatim>\<open>undefined\<close>, on \<^verbatim>\<open>JSON.stringify\<close> of a \<^verbatim>\<open>bigint\<close>, on mixing
  a \<^verbatim>\<open>bigint\<close> with a number and on calling a method a value does not have.
  The other two are no exceptions of JavaScript: they mark an addition whose result
  the embedding cannot hold, where the code goes on with that result and the
  embedding stops. \<open>NotFinite\<close>: the sum is NaN (\<^verbatim>\<open>+\<close> on \<^verbatim>\<open>undefined\<close>) or an
  infinity. \<open>NotFollowed\<close>: \<^verbatim>\<open>+\<close> on a string, array or object concatenates text,
  which \<^verbatim>\<open>Math.max\<close> then reads as a number by a floating point parse. The
  statements below that reach the addition assume a number quantity and a finite sum.
\<close>

datatype error = TypeError | NotFinite | NotFollowed

type_synonym 'a result = "error + 'a"

definition bindE :: "'a result \<Rightarrow> ('a \<Rightarrow> 'b result) \<Rightarrow> 'b result" where
  "bindE r f = (case r of Inl e \<Rightarrow> Inl e | Inr x \<Rightarrow> f x)"

text \<open>\<^verbatim>\<open>x == null\<close>: true of \<^verbatim>\<open>null\<close> and \<^verbatim>\<open>undefined\<close> only.\<close>

fun nullish :: "jsval \<Rightarrow> bool" where
  "nullish JUndefined = True"
| "nullish JNull = True"
| "nullish _ = False"

text \<open>ToBoolean, as \<^verbatim>\<open>!name\<close>, \<^verbatim>\<open>item?.name\<close> and \<^verbatim>\<open>widgetState && ...\<close> apply it.\<close>

fun truthy :: "jsval \<Rightarrow> bool" where
  "truthy JUndefined = False"
| "truthy JNull = False"
| "truthy (JBool b) = b"
| "truthy (JNum n) = (n \<noteq> 0)"
| "truthy (JBigInt n) = (n \<noteq> 0)"
| "truthy (JStr s) = (s \<noteq> [])"
| "truthy (JArr xs) = True"
| "truthy (JObj kvs) = True"

text \<open>\<^verbatim>\<open>typeof x === "object"\<close>: objects, arrays and \<^verbatim>\<open>null\<close>.\<close>

fun typeofObject :: "jsval \<Rightarrow> bool" where
  "typeofObject JNull = True"
| "typeofObject (JArr xs) = True"
| "typeofObject (JObj kvs) = True"
| "typeofObject _ = False"

fun isArray :: "jsval \<Rightarrow> bool" where
  "isArray (JArr xs) = True"
| "isArray _ = False"

text \<open>\<^verbatim>\<open>a ?? b\<close>.\<close>

definition nullishCoalesce :: "jsval \<Rightarrow> jsval \<Rightarrow> jsval" where
  "nullishCoalesce a b = (if nullish a then b else a)"

subsection \<open>Property reads\<close>

text \<open>
  The own property \<open>k\<close> of a property list: the last binding of \<open>k\<close>, or
  \<^verbatim>\<open>undefined\<close>.
\<close>

definition ownProp :: "(string \<times> jsval) list \<Rightarrow> string \<Rightarrow> jsval" where
  "ownProp kvs k = (case map_of (rev kvs) k of None \<Rightarrow> JUndefined | Some v \<Rightarrow> v)"

text \<open>
  \<^verbatim>\<open>v.k\<close> for the names the source reads (\<^verbatim>\<open>items\<close>, \<^verbatim>\<open>name\<close>, \<^verbatim>\<open>quantity\<close>):
  a TypeError on \<^verbatim>\<open>null\<close> and \<^verbatim>\<open>undefined\<close>, the own property of an object, and
  \<^verbatim>\<open>undefined\<close> on every other value (no prototype carries one of these names).
\<close>

fun getProp :: "jsval \<Rightarrow> string \<Rightarrow> jsval result" where
  "getProp JUndefined k = Inl TypeError"
| "getProp JNull k = Inl TypeError"
| "getProp (JObj kvs) k = Inr (ownProp kvs k)"
| "getProp _ k = Inr JUndefined"

text \<open>\<^verbatim>\<open>v?.k\<close>: \<^verbatim>\<open>undefined\<close> when \<open>v\<close> is nullish, the read otherwise.\<close>

definition optProp :: "jsval \<Rightarrow> string \<Rightarrow> jsval result" where
  "optProp v k = (if nullish v then Inr JUndefined else getProp v k)"

subsection \<open>Object spread\<close>

text \<open>
  CreateDataProperty on a property list: an existing name keeps its place and takes
  the new value, a new name goes last.
\<close>

fun objSet :: "(string \<times> jsval) list \<Rightarrow> string \<Rightarrow> jsval \<Rightarrow> (string \<times> jsval) list" where
  "objSet [] k v = [(k, v)]"
| "objSet ((k', v') # kvs) k v = (if k' = k then (k, v) # kvs else (k', v') # objSet kvs k v)"

text \<open>Digits (read below 16 only), and the decimal digits of a natural number, for array
  indices and for numbers in JSON text.\<close>

definition hexDigit :: "nat \<Rightarrow> char" where
  "hexDigit n = ''0123456789abcdef'' ! n"

fun showNat :: "nat \<Rightarrow> string" where
  "showNat n = (if n < 10 then [hexDigit n] else showNat (n div 10) @ [hexDigit (n mod 10)])"

definition showInt :: "int \<Rightarrow> string" where
  "showInt i = (if i < 0 then CHR ''-'' # showNat (nat (- i)) else showNat (nat i))"

text \<open>
  The own enumerable properties that \<^verbatim>\<open>{...v}\<close> copies: those of an object, the
  indexed elements of an array, the indexed characters of a string, none of a
  primitive, \<^verbatim>\<open>null\<close> or \<^verbatim>\<open>undefined\<close>.
\<close>

fun indexed :: "nat \<Rightarrow> jsval list \<Rightarrow> (string \<times> jsval) list" where
  "indexed i [] = []"
| "indexed i (x # xs) = (showNat i, x) # indexed (Suc i) xs"

fun ownProps :: "jsval \<Rightarrow> (string \<times> jsval) list" where
  "ownProps (JObj kvs) = kvs"
| "ownProps (JArr xs) = indexed 0 xs"
| "ownProps (JStr s) = indexed 0 (map (\<lambda>c. JStr [c]) s)"
| "ownProps _ = []"

text \<open>\<^verbatim>\<open>{...target, ...v}\<close>: the properties of \<open>v\<close> are set on the target in order.\<close>

definition spreadInto :: "(string \<times> jsval) list \<Rightarrow> jsval \<Rightarrow> (string \<times> jsval) list" where
  "spreadInto target v = fold (\<lambda>(k, x) acc. objSet acc k x) (ownProps v) target"

subsection \<open>\<^verbatim>\<open>JSON.stringify\<close>\<close>

text \<open>QuoteJSONString on one character.\<close>

definition escapeChar :: "char \<Rightarrow> string" where
  "escapeChar c =
     (let n = (of_char c :: nat) in
      if n = 34 then [CHR 0x5C, CHR 0x22]
      else if n = 92 then [CHR 0x5C, CHR 0x5C]
      else if n = 8 then [CHR 0x5C, CHR ''b'']
      else if n = 12 then [CHR 0x5C, CHR ''f'']
      else if n = 10 then [CHR 0x5C, CHR ''n'']
      else if n = 13 then [CHR 0x5C, CHR ''r'']
      else if n = 9 then [CHR 0x5C, CHR ''t'']
      else if n < 32 then [CHR 0x5C, CHR ''u'', CHR ''0'', CHR ''0'', hexDigit (n div 16), hexDigit (n mod 16)]
      else [c])"

definition quoteJSON :: "string \<Rightarrow> string" where
  "quoteJSON s = CHR 0x22 # concat (map escapeChar s) @ [CHR 0x22]"

fun commaSep :: "string list \<Rightarrow> string" where
  "commaSep [] = []"
| "commaSep [s] = s"
| "commaSep (s # t # ss) = s @ CHR '','' # commaSep (t # ss)"

text \<open>
  SerializeJSONProperty: \<open>Inr None\<close> is the result \<^verbatim>\<open>undefined\<close>. An array element
  that serializes to \<^verbatim>\<open>undefined\<close> is written \<^verbatim>\<open>null\<close>; an object property that does
  is left out; a \<^verbatim>\<open>bigint\<close> raises.
  The properties are written as the list has them, which is the object's own
  properties when no name is repeated (a list with a repeated name is no object a
  program holds: every object the functions below build has distinct names).
\<close>

fun serializeJSONProperty :: "jsval \<Rightarrow> string option result"
  and serializeJSONArray :: "jsval list \<Rightarrow> string list result"
  and serializeJSONObject :: "(string \<times> jsval) list \<Rightarrow> string list result" where
  "serializeJSONProperty JUndefined = Inr None"
| "serializeJSONProperty JNull = Inr (Some ''null'')"
| "serializeJSONProperty (JBool b) = Inr (Some (if b then ''true'' else ''false''))"
| "serializeJSONProperty (JNum n) = Inr (Some (showInt n))"
| "serializeJSONProperty (JBigInt n) = Inl TypeError"
| "serializeJSONProperty (JStr s) = Inr (Some (quoteJSON s))"
| "serializeJSONProperty (JArr xs) =
     (case serializeJSONArray xs of
        Inl e \<Rightarrow> Inl e
      | Inr ss \<Rightarrow> Inr (Some (CHR ''['' # commaSep ss @ '']'')))"
| "serializeJSONProperty (JObj kvs) =
     (case serializeJSONObject kvs of
        Inl e \<Rightarrow> Inl e
      | Inr ss \<Rightarrow> Inr (Some (CHR ''{'' # commaSep ss @ ''}'')))"
| "serializeJSONArray [] = Inr []"
| "serializeJSONArray (x # xs) =
     (case serializeJSONProperty x of
        Inl e \<Rightarrow> Inl e
      | Inr s \<Rightarrow>
          (case serializeJSONArray xs of
             Inl e \<Rightarrow> Inl e
           | Inr ss \<Rightarrow> Inr ((case s of None \<Rightarrow> ''null'' | Some t \<Rightarrow> t) # ss)))"
| "serializeJSONObject [] = Inr []"
| "serializeJSONObject ((k, x) # kvs) =
     (case serializeJSONProperty x of
        Inl e \<Rightarrow> Inl e
      | Inr s \<Rightarrow>
          (case serializeJSONObject kvs of
             Inl e \<Rightarrow> Inl e
           | Inr ss \<Rightarrow>
               Inr (case s of None \<Rightarrow> ss | Some t \<Rightarrow> (quoteJSON k @ CHR '':'' # t) # ss)))"

definition JSON_stringify :: "jsval \<Rightarrow> string option result" where
  "JSON_stringify v = serializeJSONProperty v"

section \<open>The cart state and its publisher\<close>

text \<open>
  The widget keeps the cart in one state cell (\<^verbatim>\<open>cartState\<close>) and the serialization
  of the last merged state in a ref (\<^verbatim>\<open>lastMergedStateRef\<close>, a string at its start and
  whatever \<^verbatim>\<open>JSON.stringify\<close> returned afterwards).
\<close>

record engine =
  cartState :: jsval
  lastMergedStateRef :: "string option"

text \<open>
  The initializer handed to \<^verbatim>\<open>useWidgetState\<close> (lines 59-65) and the initial ref
  (line 113).
\<close>

definition initialCartState :: "jsval \<Rightarrow> jsval" where
  "initialCartState widgetState =
     (if truthy widgetState \<and> typeofObject widgetState then widgetState
      else JObj [(''items'', JArr [])])"

definition initialEngine :: "jsval \<Rightarrow> engine" where
  "initialEngine widgetState =
     \<lparr>cartState = initialCartState widgetState,
      lastMergedStateRef = Some ''__cart_merge_unset__''\<rparr>"

text \<open>
  Modelled from the spec: \<^verbatim>\<open>setCartState\<close> is the setter of \<^verbatim>\<open>useWidgetState\<close>,
  whose file (\<^verbatim>\<open>src/use-widget-state.ts\<close>) is not among the sources. The spec's State
  Publisher (4.5) is the single write path: it commits the next state, which becomes
  the current state of the cell; an updater function is applied to the latest state.
\<close>

definition setCartState :: "jsval \<Rightarrow> engine \<Rightarrow> engine" where
  "setCartState nextState e = e\<lparr>cartState := nextState\<rparr>"

text \<open>\<^verbatim>\<open>cartItems\<close> (line 66): the items the widget renders.\<close>

definition cartItems :: "jsval \<Rightarrow> jsval list" where
  "cartItems cs =
     (case optProp cs ''items'' of
        Inr (JArr xs) \<Rightarrow> (case getProp cs ''items'' of Inr (JArr ys) \<Rightarrow> ys | _ \<Rightarrow> [])
      | _ \<Rightarrow> [])"

section \<open>The local edit: \<^verbatim>\<open>adjustQuantity\<close>\<close>

text \<open>\<^verbatim>\<open>items.findIndex(p)\<close>, \<open>None\<close> for \<^verbatim>\<open>-1\<close>.\<close>

fun findIndex :: "('a \<Rightarrow> bool result) \<Rightarrow> 'a list \<Rightarrow> nat option result" where
  "findIndex p [] = Inr None"
| "findIndex p (x # xs) =
     (case p x of
        Inl e \<Rightarrow> Inl e
      | Inr True \<Rightarrow> Inr (Some 0)
      | Inr False \<Rightarrow>
          (case findIndex p xs of
             Inl e \<Rightarrow> Inl e
           | Inr None \<Rightarrow> Inr None
           | Inr (Some i) \<Rightarrow> Inr (Some (Suc i))))"

text \<open>\<^verbatim>\<open>(item) => item.name === name\<close>, for a string \<open>name\<close>.\<close>

definition nameIs :: "string \<Rightarrow> jsval \<Rightarrow> bool result" where
  "nameIs name item = bindE (getProp item ''name'') (\<lambda>n. Inr (n = JStr name))"

text \<open>
  The double nearest to an integer, ties to the even significand (a double has 53
  significant bits), or \<open>None\<close> when that is an infinity (from \<open>2 ^ 1024\<close> on).
  The sum of two doubles is the double nearest to their exact sum.
\<close>

function bitLength :: "int \<Rightarrow> nat" where
  "bitLength m = (if m \<le> 0 then 0 else Suc (bitLength (m div 2)))"
  by pat_completeness auto
termination
  by (relation "measure nat") auto

definition roundDouble :: "int \<Rightarrow> int option" where
  "roundDouble x =
     (if \<bar>x\<bar> \<le> 2 ^ 53 then Some x
      else
        (let m = \<bar>x\<bar>;
             u = 2 ^ (bitLength m - 53);
             q = m div u;
             r = m mod u;
             q' = (if 2 * r < u then q else if u < 2 * r then q + 1 else if even q then q else q + 1);
             y = q' * u
         in if 2 ^ 1024 \<le> y then None else Some (sgn x * y)))"

definition addDoubles :: "int \<Rightarrow> int \<Rightarrow> int result" where
  "addDoubles a b = (case roundDouble (a + b) of None \<Rightarrow> Inl NotFinite | Some s \<Rightarrow> Inr s)"

text \<open>
  \<^verbatim>\<open>q + delta\<close> for a number \<open>delta\<close>: double addition on a number, on a boolean
  (read as 0 or 1) and on \<^verbatim>\<open>null\<close> (read as 0); a TypeError on a \<^verbatim>\<open>bigint\<close>.
\<close>

fun plusNumber :: "jsval \<Rightarrow> int \<Rightarrow> int result" where
  "plusNumber (JNum n) d = addDoubles n d"
| "plusNumber (JBool b) d = addDoubles (if b then 1 else 0) d"
| "plusNumber (JBigInt n) d = Inl TypeError"
| "plusNumber JNull d = addDoubles 0 d"
| "plusNumber JUndefined d = Inl NotFinite"
| "plusNumber (JStr s) d = Inl NotFollowed"
| "plusNumber (JArr xs) d = Inl NotFollowed"
| "plusNumber (JObj kvs) d = Inl NotFollowed"

text \<open>\<^verbatim>\<open>({ ...item })\<close>.\<close>

definition copyItem :: "jsval \<Rightarrow> jsval" where
  "copyItem item = JObj (spreadInto [] item)"

text \<open>\<^verbatim>\<open>items.splice(idx, 1)\<close>.\<close>

definition splice1 :: "nat \<Rightarrow> 'a list \<Rightarrow> 'a list" where
  "splice1 idx xs = take idx xs @ drop (Suc idx) xs"

text \<open>
  Lines 76-78: the items of the base state, each shallow-copied, or none when
  \<^verbatim>\<open>baseState.items\<close> is not an array.
\<close>

definition copiedItems :: "jsval \<Rightarrow> jsval list result" where
  "copiedItems baseState =
     bindE (getProp baseState ''items'') (\<lambda>its.
       if isArray its
       then bindE (getProp baseState ''items'')
              (\<lambda>its'. case its' of JArr xs \<Rightarrow> Inr (map copyItem xs) | _ \<Rightarrow> Inl TypeError)
       else Inr [])"

text \<open>
  Lines 87-93: the item found at \<open>idx\<close> is removed when its next quantity is 0 and
  replaced by a copy with the next quantity otherwise. \<open>items ! idx\<close> is read at an
  index \<^verbatim>\<open>findIndex\<close> returned, so within the list.
\<close>

definition editAt :: "nat \<Rightarrow> int \<Rightarrow> jsval list \<Rightarrow> jsval list result" where
  "editAt idx delta items =
     (let current = items ! idx in
      bindE (getProp current ''quantity'') (\<lambda>q.
      bindE (plusNumber (nullishCoalesce q (JNum 0)) delta) (\<lambda>s.
        let nextQuantity = max 0 s in
        if nextQuantity = 0 then Inr (splice1 idx items)
        else Inr (items[idx := JObj (objSet (spreadInto [] current) ''quantity'' (JNum nextQuantity))]))))"

text \<open>The updater that \<^verbatim>\<open>adjustQuantity\<close> hands to \<^verbatim>\<open>setCartState\<close> (lines 74-98).\<close>

definition adjustQuantityUpdater :: "string \<Rightarrow> int \<Rightarrow> jsval \<Rightarrow> jsval result" where
  "adjustQuantityUpdater name delta prevState =
     (let baseState = nullishCoalesce prevState (JObj []) in
      bindE (copiedItems baseState) (\<lambda>items.
      bindE (findIndex (nameIs name) items) (\<lambda>idx.
        case idx of
          None \<Rightarrow> Inr baseState
        | Some i \<Rightarrow>
            bindE (editAt i delta items) (\<lambda>items'.
              Inr (JObj (objSet (spreadInto [] baseState) ''items'' (JArr items')))))))"

text \<open>
  \<^verbatim>\<open>adjustQuantity(name, delta)\<close> (lines 68-99) on the engine: the guard returns before
  any write; otherwise the updater runs on the latest state and its result is
  published. The result is the engine after the call, or the error of the updater: a
  TypeError it raised, or the mark that the embedding does not hold its sum.
\<close>

definition adjustQuantity :: "string \<Rightarrow> int \<Rightarrow> engine \<Rightarrow> engine result" where
  "adjustQuantity name delta e =
     (if name = [] \<or> delta = 0 then Inr e
      else (case adjustQuantityUpdater name delta (cartState e) of
              Inl err \<Rightarrow> Inl err
            | Inr nextState \<Rightarrow> Inr (setCartState nextState e)))"

section \<open>The merge effect\<close>

text \<open>
  Lines 130-134: \<^verbatim>\<open>incomingItems\<close>, the \<^verbatim>\<open>items\<close> of \<^verbatim>\<open>toolInput\<close> when that is an
  array and no items otherwise. The first read is the optional chain inside
  \<^verbatim>\<open>Array.isArray\<close>, the second the plain read in the true branch, followed by
  \<^verbatim>\<open>?? []\<close>; iterating anything but an array or a string raises.
\<close>

fun iterate :: "jsval \<Rightarrow> jsval list result" where
  "iterate (JArr xs) = Inr xs"
| "iterate (JStr s) = Inr (map (\<lambda>c. JStr [c]) s)"
| "iterate _ = Inl TypeError"

definition incomingItems :: "jsval \<Rightarrow> jsval list result" where
  "incomingItems toolInput =
     bindE (optProp toolInput ''items'') (\<lambda>its.
       if isArray its
       then bindE (getProp toolInput ''items'') (\<lambda>its'. iterate (nullishCoalesce its' (JArr [])))
       else Inr [])"

text \<open>Lines 136-139: the host state when it is an object, the local cart otherwise.\<close>

definition baseStateOf :: "jsval \<Rightarrow> jsval \<Rightarrow> jsval" where
  "baseStateOf widgetState cart =
     (if truthy widgetState \<and> typeofObject widgetState then widgetState
      else nullishCoalesce cart (JObj [(''items'', JArr [])]))"

text \<open>Line 140.\<close>

definition baseItemsOf :: "jsval \<Rightarrow> jsval list result" where
  "baseItemsOf baseState =
     bindE (getProp baseState ''items'') (\<lambda>its.
       if isArray its then bindE (getProp baseState ''items'') iterate else Inr [])"

text \<open>
  \<^verbatim>\<open>itemsByName\<close> is a \<^verbatim>\<open>Map\<close>: its entries in insertion order. \<^verbatim>\<open>set\<close> on a key
  that is present keeps the entry's place and replaces its value; \<^verbatim>\<open>get\<close> of an
  absent key is \<^verbatim>\<open>undefined\<close>. Keys are compared by value, which is how a \<^verbatim>\<open>Map\<close>
  compares strings and the other primitives (\<^verbatim>\<open>CartItem.name\<close> is a string).
\<close>

type_synonym itemMap = "(jsval \<times> jsval) list"

definition mapGet :: "itemMap \<Rightarrow> jsval \<Rightarrow> jsval" where
  "mapGet m k = (case map_of m k of None \<Rightarrow> JUndefined | Some v \<Rightarrow> v)"

fun mapSet :: "itemMap \<Rightarrow> jsval \<Rightarrow> jsval \<Rightarrow> itemMap" where
  "mapSet [] k v = [(k, v)]"
| "mapSet ((k', v') # m) k v = (if k' = k then (k, v) # m else (k', v') # mapSet m k v)"

text \<open>Lines 143-147: one step of the loop over the base items.\<close>

definition indexItem :: "jsval \<Rightarrow> itemMap \<Rightarrow> itemMap result" where
  "indexItem item m =
     bindE (optProp item ''name'') (\<lambda>n.
       if truthy n then bindE (getProp item ''name'') (\<lambda>n'. Inr (mapSet m n' item))
       else Inr m)"

text \<open>
  Lines 148-152: one step of the loop over the incoming items,
  \<^verbatim>\<open>itemsByName.set(item.name, { ...itemsByName.get(item.name), ...item })\<close>.
\<close>

definition overlayItem :: "jsval \<Rightarrow> itemMap \<Rightarrow> itemMap result" where
  "overlayItem item m =
     bindE (optProp item ''name'') (\<lambda>n.
       if truthy n
       then bindE (getProp item ''name'') (\<lambda>n'.
            bindE (getProp item ''name'') (\<lambda>n''.
              Inr (mapSet m n' (JObj (spreadInto (spreadInto [] (mapGet m n'')) item)))))
       else Inr m)"

text \<open>A \<^verbatim>\<open>for ... of\<close> loop whose body may raise.\<close>

fun forEach :: "('a \<Rightarrow> 's \<Rightarrow> 's result) \<Rightarrow> 'a list \<Rightarrow> 's \<Rightarrow> 's result" where
  "forEach f [] s = Inr s"
| "forEach f (x # xs) s = bindE (f x s) (forEach f xs)"

text \<open>Lines 142-154: the map after both loops, and its values.\<close>

definition itemsByName :: "jsval list \<Rightarrow> jsval list \<Rightarrow> itemMap result" where
  "itemsByName baseItems incoming =
     bindE (forEach indexItem baseItems []) (forEach overlayItem incoming)"

definition nextItemsOf :: "jsval list \<Rightarrow> jsval list \<Rightarrow> jsval list result" where
  "nextItemsOf baseItems incoming = bindE (itemsByName baseItems incoming) (\<lambda>m. Inr (map snd m))"

text \<open>Lines 130-155: \<^verbatim>\<open>nextState\<close>.\<close>

definition nextStateOf :: "jsval \<Rightarrow> jsval \<Rightarrow> jsval \<Rightarrow> jsval result" where
  "nextStateOf toolInput widgetState cart =
     bindE (incomingItems toolInput) (\<lambda>incoming.
       let baseState = baseStateOf widgetState cart in
       bindE (baseItemsOf baseState) (\<lambda>baseItems.
       bindE (nextItemsOf baseItems incoming) (\<lambda>nextItems.
         Inr (JObj (objSet (spreadInto [] baseState) ''items'' (JArr nextItems))))))"

text \<open>Lines 101-111.\<close>

definition widgetStateEqual :: "jsval \<Rightarrow> jsval \<Rightarrow> bool result" where
  "widgetStateEqual a b =
     (if nullish a \<and> nullish b then Inr True
      else if nullish a \<or> nullish b then Inr False
      else bindE (JSON_stringify a) (\<lambda>sa. bindE (JSON_stringify b) (\<lambda>sb. Inr (sa = sb))))"

text \<open>Line 158.\<close>

definition shouldForceSyncFromResponse :: "jsval \<Rightarrow> jsval \<Rightarrow> bool" where
  "shouldForceSyncFromResponse widgetState toolOutput = (nullish widgetState \<and> \<not> nullish toolOutput)"

text \<open>
  What one run of the effect did: it returned at line 120, it skipped at line 161, it
  called \<^verbatim>\<open>setCartState\<close> at line 168, it found the state equal at line 170, or an
  exception left it.
\<close>

datatype outcome = EarlyReturn | Skipped | Published jsval | EqualState | Threw error

text \<open>
  Lines 157-171, given \<^verbatim>\<open>nextState\<close>: the change detector. The ref is written at line
  164, before the comparison with the local cart, so an exception raised by that
  comparison leaves the ref written.
\<close>

definition changeDetector :: "bool \<Rightarrow> jsval \<Rightarrow> engine \<Rightarrow> engine \<times> outcome" where
  "changeDetector force nextState e =
     (case JSON_stringify nextState of
        Inl err \<Rightarrow> (e, Threw err)
      | Inr serialized \<Rightarrow>
          if \<not> force \<and> serialized = lastMergedStateRef e then (e, Skipped)
          else
            (let e' = e\<lparr>lastMergedStateRef := serialized\<rparr> in
             if force then (setCartState nextState e', Published nextState)
             else (case widgetStateEqual nextState (cartState e) of
                     Inl err \<Rightarrow> (e', Threw err)
                   | Inr eq \<Rightarrow>
                       if \<not> eq then (setCartState nextState e', Published nextState)
                       else (e', EqualState))))"

text \<open>Lines 115-172: one run of the effect.\<close>

definition mergeEffect :: "jsval \<Rightarrow> jsval \<Rightarrow> jsval \<Rightarrow> engine \<Rightarrow> engine \<times> outcome" where
  "mergeEffect toolInput toolOutput widgetState e =
     (if nullish toolInput \<and> nullish toolOutput \<and> nullish widgetState then (e, EarlyReturn)
      else (case nextStateOf toolInput widgetState (cartState e) of
              Inl err \<Rightarrow> (e, Threw err)
            | Inr nextState \<Rightarrow>
                changeDetector (shouldForceSyncFromResponse widgetState toolOutput) nextState e))"

section \<open>Closed forms used in the proofs\<close>

text \<open>
  The value of \<^verbatim>\<open>item?.name\<close>, and the two loop bodies as functions that cannot raise
  (\<open>indexItem_pure\<close> and \<open>overlayItem_pure\<close> below show that they are the loop bodies).
\<close>

definition itemName :: "jsval \<Rightarrow> jsval" where
  "itemName item = (case item of JObj kvs \<Rightarrow> ownProp kvs ''name'' | _ \<Rightarrow> JUndefined)"

definition indexStep :: "jsval \<Rightarrow> itemMap \<Rightarrow> itemMap" where
  "indexStep item m = (if truthy (itemName item) then mapSet m (itemName item) item else m)"

definition overlayStep :: "jsval \<Rightarrow> itemMap \<Rightarrow> itemMap" where
  "overlayStep item m =
     (if truthy (itemName item)
      then mapSet m (itemName item) (JObj (spreadInto (spreadInto [] (mapGet m (itemName item))) item))
      else m)"

text \<open>The own properties of a value, read as a finite map from names to values.\<close>

definition fields :: "jsval \<Rightarrow> string \<rightharpoonup> jsval" where
  "fields v = map_of (rev (ownProps v))"

section \<open>Runs of the engine\<close>

text \<open>
  The effect runs whenever one of the three host values or the cart changes, and a
  click runs \<^verbatim>\<open>adjustQuantity\<close>; the scheduler runs them one at a time. A run of the
  engine is therefore a list of events, applied in order to the engine. An effect or an
  edit that raises leaves the engine as the exception left it. An edit whose sum the
  embedding does not hold (\<open>NotFinite\<close>, \<open>NotFollowed\<close>) is kept in a run as a step
  that leaves the engine as it is, so that a run is defined for every list of events;
  it cannot occur on a cart whose quantities are numbers unless a sum overflows.
\<close>

datatype event = Merge jsval jsval jsval | Edit string int

fun step :: "event \<Rightarrow> engine \<Rightarrow> engine" where
  "step (Merge toolInput toolOutput widgetState) e = fst (mergeEffect toolInput toolOutput widgetState e)"
| "step (Edit name delta) e = (case adjustQuantity name delta e of Inl err \<Rightarrow> e | Inr e' \<Rightarrow> e')"

text \<open>
  Two runs of the effect in a row on the same three inputs, with the outcomes of both,
  and the number of publishes among outcomes.
\<close>

fun published :: "outcome \<Rightarrow> bool" where
  "published (Published s) = True"
| "published _ = False"

definition mergeTwice :: "jsval \<Rightarrow> jsval \<Rightarrow> jsval \<Rightarrow> engine \<Rightarrow> engine \<times> outcome list" where
  "mergeTwice toolInput toolOutput widgetState e =
     (let (e1, o1) = mergeEffect toolInput toolOutput widgetState e;
          (e2, o2) = mergeEffect toolInput toolOutput widgetState e1
      in (e2, [o1, o2]))"

definition publishCount :: "outcome list \<Rightarrow> nat" where
  "publishCount os = length (filter published os)"

section \<open>Properties of states and inputs\<close>

text \<open>
  The item wire contract on quantities (spec, section 6): the \<^verbatim>\<open>quantity\<close> of an item
  is a number that is not negative. \<open>stateInv\<close> says so of every item of a state,
  \<open>eventOk\<close> of every incoming item and of the host state of a merge.
\<close>

definition quantityOk :: "jsval \<Rightarrow> bool" where
  "quantityOk item = (case fields item ''quantity'' of Some (JNum q) \<Rightarrow> 0 \<le> q | _ \<Rightarrow> False)"

definition stateInv :: "jsval \<Rightarrow> bool" where
  "stateInv cs = (\<forall>item \<in> set (cartItems cs). quantityOk item)"

fun eventOk :: "event \<Rightarrow> bool" where
  "eventOk (Merge toolInput toolOutput widgetState) =
     ((case incomingItems toolInput of Inr items \<Rightarrow> \<forall>item \<in> set items. quantityOk item | Inl err \<Rightarrow> True)
      \<and> stateInv widgetState)"
| "eventOk (Edit name delta) = True"

text \<open>Maps whose keys are distinct, truthy, and the names of their values.\<close>

definition goodMap :: "itemMap \<Rightarrow> bool" where
  "goodMap m \<longleftrightarrow> distinct (map fst m) \<and> (\<forall>(k, v) \<in> set m. truthy k \<and> itemName v = k)"

section \<open>Reads that cannot raise\<close>

lemma bindE_simps [simp]: "bindE (Inr x) f = f x" "bindE (Inl e) f = Inl e"
  by (simp_all add: bindE_def)

lemma optProp_name: "optProp item ''name'' = Inr (itemName item)"
  by (cases item) (simp_all add: optProp_def itemName_def)

lemma getProp_name: "truthy (itemName item) \<Longrightarrow> getProp item ''name'' = Inr (itemName item)"
  by (cases item) (simp_all add: itemName_def)

lemma indexItem_pure: "indexItem item m = Inr (indexStep item m)"
  by (simp add: indexItem_def indexStep_def optProp_name getProp_name)

lemma overlayItem_pure: "overlayItem item m = Inr (overlayStep item m)"
  by (simp add: overlayItem_def overlayStep_def optProp_name getProp_name)

lemma forEach_pure: "(\<And>x s. f x s = Inr (g x s)) \<Longrightarrow> forEach f xs s = Inr (fold g xs s)"
  by (induction xs arbitrary: s) simp_all

lemma itemsByName_pure:
  "itemsByName baseItems incoming = Inr (fold overlayStep incoming (fold indexStep baseItems []))"
  by (simp add: itemsByName_def forEach_pure [of indexItem indexStep] forEach_pure [of overlayItem overlayStep]
      indexItem_pure overlayItem_pure)

lemma incomingItems_closed:
  "incomingItems toolInput =
     Inr (case toolInput of
            JObj kvs \<Rightarrow> (case ownProp kvs ''items'' of JArr xs \<Rightarrow> xs | _ \<Rightarrow> [])
          | _ \<Rightarrow> [])"
proof (cases toolInput)
  case (JObj kvs)
  then show ?thesis
    by (cases "ownProp kvs ''items''") (simp_all add: incomingItems_def optProp_def nullishCoalesce_def)
qed (simp_all add: incomingItems_def optProp_def)

lemma baseStateOf_not_nullish: "\<not> nullish (baseStateOf widgetState cart)"
  by (cases widgetState; cases cart) (simp_all add: baseStateOf_def nullishCoalesce_def)

lemma baseItemsOf_closed:
  "\<not> nullish b \<Longrightarrow>
   baseItemsOf b =
     Inr (case b of
            JObj kvs \<Rightarrow> (case ownProp kvs ''items'' of JArr xs \<Rightarrow> xs | _ \<Rightarrow> [])
          | _ \<Rightarrow> [])"
proof (cases b)
  case (JObj kvs)
  then show ?thesis
    by (cases "ownProp kvs ''items''") (simp_all add: baseItemsOf_def)
qed (simp_all add: baseItemsOf_def)

lemma nextStateOf_total: "\<exists>kvs. nextStateOf toolInput widgetState cart = Inr (JObj kvs)"
  by (simp add: nextStateOf_def incomingItems_closed Let_def nextItemsOf_def itemsByName_pure
      baseItemsOf_closed [OF baseStateOf_not_nullish])

section \<open>Property lists\<close>

lemma map_of_objSet: "map_of (objSet l k v) = (map_of l)(k \<mapsto> v)"
  by (induction l) auto

lemma keys_objSet:
  "map fst (objSet l k v) = (if k \<in> fst ` set l then map fst l else map fst l @ [k])"
  by (induction l) force+

lemma keyset_objSet: "fst ` set (objSet l k v) = insert k (fst ` set l)"
proof -
  have "set (map fst (objSet l k v)) = insert k (set (map fst l))"
    unfolding keys_objSet by auto
  then show ?thesis by simp
qed

lemma distinct_objSet: "distinct (map fst l) \<Longrightarrow> distinct (map fst (objSet l k v))"
  by (simp add: keys_objSet)

lemma map_of_setAll:
  "map_of (fold (\<lambda>(k, x) acc. objSet acc k x) ps l) = map_of l ++ map_of (rev ps)"
  by (induction ps arbitrary: l) (auto simp: map_of_objSet)

lemma distinct_setAll:
  "distinct (map fst l) \<Longrightarrow> distinct (map fst (fold (\<lambda>(k, x) acc. objSet acc k x) ps l))"
  by (induction ps arbitrary: l) (auto simp: distinct_objSet)

lemma keys_setAll_subset:
  "fst ` set ps \<subseteq> fst ` set l \<Longrightarrow>
   map fst (fold (\<lambda>(k, x) acc. objSet acc k x) ps l) = map fst l"
proof (induction ps arbitrary: l)
  case Nil
  then show ?case by simp
next
  case (Cons p ps)
  obtain k v where p: "p = (k, v)" by (cases p)
  from Cons.prems p have k: "k \<in> fst ` set l" and rest: "fst ` set ps \<subseteq> fst ` set l" by auto
  from rest k have "fst ` set ps \<subseteq> fst ` set (objSet l k v)" by (simp add: keyset_objSet insert_absorb)
  from Cons.IH [OF this] k show ?case by (simp add: p keys_objSet)
qed

lemma keyset_setAll:
  "fst ` set (fold (\<lambda>(k, x) acc. objSet acc k x) ps l) = fst ` set l \<union> fst ` set ps"
proof (induction ps arbitrary: l)
  case Nil
  then show ?case by simp
next
  case (Cons p ps)
  obtain k v where p: "p = (k, v)" by (cases p)
  show ?case by (simp add: p Cons.IH keyset_objSet)
qed

lemma objSet_fresh: "k \<notin> fst ` set l \<Longrightarrow> objSet l k v = l @ [(k, v)]"
  by (induction l) force+

lemma setAll_fresh:
  "distinct (map fst (acc @ ps)) \<Longrightarrow> fold (\<lambda>(k, x) acc. objSet acc k x) ps acc = acc @ ps"
proof (induction ps arbitrary: acc)
  case Nil
  then show ?case by simp
next
  case (Cons p ps)
  obtain k v where p: "p = (k, v)" by (cases p)
  from Cons.prems p have fresh: "k \<notin> fst ` set acc" by auto
  from Cons.prems p have "distinct (map fst ((acc @ [(k, v)]) @ ps))" by auto
  from Cons.IH [OF this] show ?case
    by (simp add: p objSet_fresh [OF fresh])
qed

lemma map_of_rev_distinct: "distinct (map fst l) \<Longrightarrow> map_of (rev l) = map_of l"
proof (induction l)
  case Nil
  then show ?case by simp
next
  case (Cons p l)
  obtain k v where p: "p = (k, v)" by (cases p)
  from Cons.prems p have "k \<notin> dom (map_of l)" by (auto simp: dom_map_of_conv_image_fst)
  then have "map_of l k = None" by blast
  with Cons p show ?case
    by (auto simp: map_add_def fun_eq_iff split: option.splits)
qed

lemma distinct_spreadInto: "distinct (map fst t) \<Longrightarrow> distinct (map fst (spreadInto t v))"
  by (simp add: spreadInto_def distinct_setAll)

lemma fields_spreadInto:
  "distinct (map fst t) \<Longrightarrow> fields (JObj (spreadInto t v)) = map_of t ++ fields v"
  by (simp add: fields_def map_of_rev_distinct distinct_spreadInto)
     (simp add: spreadInto_def map_of_setAll)

lemma fields_copyItem: "fields (copyItem x) = fields x"
  by (simp add: copyItem_def fields_spreadInto)

lemma spreadInto_copy: "distinct (map fst kvs) \<Longrightarrow> spreadInto [] (JObj kvs) = kvs"
  using setAll_fresh [of "[]" kvs] by (simp add: spreadInto_def)

lemma ownProp_fields: "ownProp kvs k = (case fields (JObj kvs) k of None \<Rightarrow> JUndefined | Some v \<Rightarrow> v)"
  by (simp add: ownProp_def fields_def)

lemma fields_objSet:
  "distinct (map fst l) \<Longrightarrow> fields (JObj (objSet l k v)) = (map_of l)(k \<mapsto> v)"
  by (simp add: fields_def map_of_rev_distinct distinct_objSet map_of_objSet)

text \<open>The definitions a concrete run unfolds.\<close>

lemmas run_defs =
  mergeEffect_def changeDetector_def nextStateOf_def nextItemsOf_def itemsByName_def
  overlayItem_def indexItem_def baseItemsOf_def baseStateOf_def incomingItems_def
  widgetStateEqual_def shouldForceSyncFromResponse_def setCartState_def
  JSON_stringify_def quoteJSON_def escapeChar_def showInt_def hexDigit_def
  optProp_def ownProp_def nullishCoalesce_def spreadInto_def mapGet_def
  adjustQuantity_def adjustQuantityUpdater_def editAt_def copiedItems_def copyItem_def
  nameIs_def splice1_def initialEngine_def initialCartState_def cartItems_def
  addDoubles_def roundDouble_def

lemma stringify_example:
  "JSON_stringify (JObj [(''items'', JArr [JObj [(''name'', JStr ''A''), (''quantity'', JNum 12)]])])
   = Inr (Some (''{'' @ [CHR 0x22] @ ''items'' @ [CHR 0x22] @ '':[{'' @ [CHR 0x22] @ ''name'' @ [CHR 0x22] @ '':''
        @ [CHR 0x22] @ ''A'' @ [CHR 0x22] @ '','' @ [CHR 0x22] @ ''quantity'' @ [CHR 0x22] @ '':12}]}''))"
  by (simp add: JSON_stringify_def quoteJSON_def escapeChar_def showInt_def hexDigit_def)

section \<open>The merge effect: early return, inputs, forced resync, change detection\<close>

text \<open>
  Claim C10. When \<^verbatim>\<open>toolInput\<close>, \<^verbatim>\<open>toolOutput\<close> and \<^verbatim>\<open>widgetState\<close> are all
  \<^verbatim>\<open>null\<close> (or \<^verbatim>\<open>undefined\<close>), the effect returns at line 120: nothing is computed,
  nothing is published, and the ref and the local cart are as they were, whatever the
  cart holds.
\<close>

theorem merge_all_null_returns_early:
  assumes "nullish toolInput" and "nullish toolOutput" and "nullish widgetState"
  shows "mergeEffect toolInput toolOutput widgetState e = (e, EarlyReturn)"
  using assms by (simp add: mergeEffect_def)

theorem merge_all_null_returns_early_witness:
  "nullish JNull \<and> nullish JUndefined \<and> nullish JNull \<and>
   mergeEffect JNull JUndefined JNull
     \<lparr>cartState = JObj [(''items'', JArr [JObj [(''name'', JStr ''A''), (''quantity'', JNum 1)]])],
      lastMergedStateRef = Some ''__cart_merge_unset__''\<rparr>
   = (\<lparr>cartState = JObj [(''items'', JArr [JObj [(''name'', JStr ''A''), (''quantity'', JNum 1)]])],
       lastMergedStateRef = Some ''__cart_merge_unset__''\<rparr>, EarlyReturn)"
  using merge_all_null_returns_early [of JNull JUndefined JNull]
  by simp

text \<open>
  Claim C9. For every value of \<^verbatim>\<open>toolInput\<close>, \<^verbatim>\<open>incomingItems\<close> is the \<^verbatim>\<open>items\<close>
  field when \<^verbatim>\<open>toolInput\<close> is an object whose \<^verbatim>\<open>items\<close> is an array, and empty in
  every other case (\<^verbatim>\<open>null\<close>, a primitive, an array, a missing or non-array field).
  The result is always a value: no input makes the reads raise.
\<close>

theorem incomingItems_array_or_empty:
  "incomingItems toolInput =
     Inr (case toolInput of
            JObj kvs \<Rightarrow> (case ownProp kvs ''items'' of JArr xs \<Rightarrow> xs | _ \<Rightarrow> [])
          | _ \<Rightarrow> [])"
  by (rule incomingItems_closed)

text \<open>
  Claim C2, as the code has it. The forced-resync flag holds exactly when
  \<^verbatim>\<open>widgetState\<close> is nullish and \<^verbatim>\<open>toolOutput\<close> is not. When it holds, the merge
  result is computed; if line 157 serializes it, it is published and the ref is
  written, whatever the ref and the local cart were before; if line 157 raises, the
  effect raises with the engine as it was, and nothing is published.
\<close>

theorem forced_resync_publishes:
  "(shouldForceSyncFromResponse widgetState toolOutput \<longleftrightarrow>
      (widgetState = JNull \<or> widgetState = JUndefined) \<and> toolOutput \<noteq> JNull \<and> toolOutput \<noteq> JUndefined)
   \<and> (shouldForceSyncFromResponse widgetState toolOutput \<longrightarrow>
        (\<exists>nextState. nextStateOf toolInput widgetState (cartState e) = Inr nextState
           \<and> mergeEffect toolInput toolOutput widgetState e
               = (case JSON_stringify nextState of
                    Inl err \<Rightarrow> (e, Threw err)
                  | Inr serialized \<Rightarrow>
                      (\<lparr>cartState = nextState, lastMergedStateRef = serialized\<rparr>, Published nextState))))"
proof (intro conjI impI)
  show "shouldForceSyncFromResponse widgetState toolOutput \<longleftrightarrow>
      (widgetState = JNull \<or> widgetState = JUndefined) \<and> toolOutput \<noteq> JNull \<and> toolOutput \<noteq> JUndefined"
    by (cases widgetState; cases toolOutput) (simp_all add: shouldForceSyncFromResponse_def)
next
  assume force: "shouldForceSyncFromResponse widgetState toolOutput"
  obtain kvs where ns: "nextStateOf toolInput widgetState (cartState e) = Inr (JObj kvs)"
    using nextStateOf_total by blast
  have "mergeEffect toolInput toolOutput widgetState e
          = (case JSON_stringify (JObj kvs) of
               Inl err \<Rightarrow> (e, Threw err)
             | Inr serialized \<Rightarrow>
                 (\<lparr>cartState = JObj kvs, lastMergedStateRef = serialized\<rparr>, Published (JObj kvs)))"
    using force ns
    by (auto simp: mergeEffect_def changeDetector_def shouldForceSyncFromResponse_def setCartState_def
        split: sum.splits)
  with ns show "\<exists>nextState. nextStateOf toolInput widgetState (cartState e) = Inr nextState
           \<and> mergeEffect toolInput toolOutput widgetState e
               = (case JSON_stringify nextState of
                    Inl err \<Rightarrow> (e, Threw err)
                  | Inr serialized \<Rightarrow>
                      (\<lparr>cartState = nextState, lastMergedStateRef = serialized\<rparr>, Published nextState))"
    by blast
qed

theorem forced_resync_publishes_witness:
  "shouldForceSyncFromResponse JNull (JObj [(''items'', JArr [JObj [(''name'', JStr ''Y''), (''quantity'', JNum 2)]])])
   \<and> nextStateOf JNull JNull (JObj [(''items'', JArr [])]) = Inr (JObj [(''items'', JArr [])])
   \<and> JSON_stringify (JObj [(''items'', JArr [])]) = Inr (Some (''{'' @ [CHR 0x22] @ ''items'' @ [CHR 0x22] @ '':[]}''))
   \<and> mergeEffect JNull (JObj [(''items'', JArr [JObj [(''name'', JStr ''Y''), (''quantity'', JNum 2)]])]) JNull
        \<lparr>cartState = JObj [(''items'', JArr [])],
         lastMergedStateRef = Some (''{'' @ [CHR 0x22] @ ''items'' @ [CHR 0x22] @ '':[]}'')\<rparr>
      = (\<lparr>cartState = JObj [(''items'', JArr [])],
          lastMergedStateRef = Some (''{'' @ [CHR 0x22] @ ''items'' @ [CHR 0x22] @ '':[]}'')\<rparr>,
         Published (JObj [(''items'', JArr [])]))"
proof -
  let ?out = "JObj [(''items'', JArr [JObj [(''name'', JStr ''Y''), (''quantity'', JNum 2)]])]"
  let ?e = "\<lparr>cartState = JObj [(''items'', JArr [])],
         lastMergedStateRef = Some (''{'' @ [CHR 0x22] @ ''items'' @ [CHR 0x22] @ '':[]}'')\<rparr>"
  have force: "shouldForceSyncFromResponse JNull ?out"
    by (simp add: shouldForceSyncFromResponse_def)
  have ns: "nextStateOf JNull JNull (JObj [(''items'', JArr [])]) = Inr (JObj [(''items'', JArr [])])"
    by (simp add: run_defs)
  have ser: "JSON_stringify (JObj [(''items'', JArr [])])
      = Inr (Some (''{'' @ [CHR 0x22] @ ''items'' @ [CHR 0x22] @ '':[]}''))"
    by (simp add: run_defs)
  from forced_resync_publishes [of JNull ?out JNull ?e] force ns ser
  show ?thesis by simp
qed

text \<open>
  The claim as stated fails: with \<^verbatim>\<open>widgetState\<close> null, \<^verbatim>\<open>toolOutput\<close> \<^verbatim>\<open>{}\<close> and an
  incoming item that holds a \<^verbatim>\<open>bigint\<close>, resync is forced, line 157 raises a
  TypeError, and the merge result is not published.
\<close>

theorem forced_resync_counterexample:
  "shouldForceSyncFromResponse JNull (JObj [])
   \<and> nextStateOf (JObj [(''items'', JArr [JObj [(''name'', JStr ''A''), (''quantity'', JBigInt 1)]])]) JNull
        (cartState (initialEngine JNull))
       = Inr (JObj [(''items'', JArr [JObj [(''name'', JStr ''A''), (''quantity'', JBigInt 1)]])])
   \<and> mergeEffect (JObj [(''items'', JArr [JObj [(''name'', JStr ''A''), (''quantity'', JBigInt 1)]])])
        (JObj []) JNull (initialEngine JNull)
      = (initialEngine JNull, Threw TypeError)
   \<and> \<not> published (Threw TypeError)"
  by (simp add: run_defs)

text \<open>
  Claim C1, as the code has it. Without forced resync, a run that gets past line 120
  skips when the serialization of the next state equals the ref; otherwise it writes
  the ref, and then publishes only if the next state also differs from the local cart
  under \<^verbatim>\<open>widgetStateEqual\<close>. So the ref is written whenever the serialization
  differs from it, with or without a publish.
\<close>

theorem unforced_change_detection:
  assumes "\<not> shouldForceSyncFromResponse widgetState toolOutput"
    and "\<not> (nullish toolInput \<and> nullish toolOutput \<and> nullish widgetState)"
    and "nextStateOf toolInput widgetState (cartState e) = Inr nextState"
    and "JSON_stringify nextState = Inr serialized"
    and "widgetStateEqual nextState (cartState e) = Inr eq"
  shows "mergeEffect toolInput toolOutput widgetState e =
     (if serialized = lastMergedStateRef e then (e, Skipped)
      else if eq then (e\<lparr>lastMergedStateRef := serialized\<rparr>, EqualState)
      else (\<lparr>cartState = nextState, lastMergedStateRef = serialized\<rparr>, Published nextState))"
  using assms by (simp add: mergeEffect_def changeDetector_def setCartState_def)

theorem unforced_change_detection_witness:
  "\<not> shouldForceSyncFromResponse (JObj [(''items'', JArr [])]) JNull
   \<and> \<not> (nullish JNull \<and> nullish JNull \<and> nullish (JObj [(''items'', JArr [])]))
   \<and> nextStateOf JNull (JObj [(''items'', JArr [])]) (JObj []) = Inr (JObj [(''items'', JArr [])])
   \<and> JSON_stringify (JObj [(''items'', JArr [])]) = Inr (Some (''{'' @ [CHR 0x22] @ ''items'' @ [CHR 0x22] @ '':[]}''))
   \<and> widgetStateEqual (JObj [(''items'', JArr [])]) (JObj []) = Inr False
   \<and> mergeEffect JNull JNull (JObj [(''items'', JArr [])])
        \<lparr>cartState = JObj [], lastMergedStateRef = Some ''__cart_merge_unset__''\<rparr>
      = (\<lparr>cartState = JObj [(''items'', JArr [])],
          lastMergedStateRef = Some (''{'' @ [CHR 0x22] @ ''items'' @ [CHR 0x22] @ '':[]}'')\<rparr>,
         Published (JObj [(''items'', JArr [])]))"
proof -
  let ?ws = "JObj [(''items'', JArr [])]"
  let ?e = "\<lparr>cartState = JObj [], lastMergedStateRef = Some ''__cart_merge_unset__''\<rparr>"
  have a: "\<not> shouldForceSyncFromResponse ?ws JNull"
    by (simp add: shouldForceSyncFromResponse_def)
  have b: "\<not> (nullish JNull \<and> nullish JNull \<and> nullish ?ws)" by simp
  have c: "nextStateOf JNull ?ws (cartState ?e) = Inr ?ws" by (simp add: run_defs)
  have d: "JSON_stringify ?ws = Inr (Some (''{'' @ [CHR 0x22] @ ''items'' @ [CHR 0x22] @ '':[]}''))"
    by (simp add: run_defs)
  have f: "widgetStateEqual ?ws (cartState ?e) = Inr False" by (simp add: run_defs)
  from unforced_change_detection [OF a b c d f] a b c d f
  show ?thesis by simp
qed

text \<open>
  The claim as stated fails: the host state \<^verbatim>\<open>{items: []}\<close> merged into an equal
  local cart serializes differently from the initial ref, yet nothing is published,
  and the ref is written all the same.
\<close>

theorem unforced_publish_iff_changed_counterexample:
  "\<not> shouldForceSyncFromResponse (JObj [(''items'', JArr [])]) JNull
   \<and> nextStateOf JNull (JObj [(''items'', JArr [])]) (JObj [(''items'', JArr [])]) = Inr (JObj [(''items'', JArr [])])
   \<and> JSON_stringify (JObj [(''items'', JArr [])]) \<noteq> Inr (Some ''__cart_merge_unset__'')
   \<and> mergeEffect JNull JNull (JObj [(''items'', JArr [])])
        \<lparr>cartState = JObj [(''items'', JArr [])], lastMergedStateRef = Some ''__cart_merge_unset__''\<rparr>
      = (\<lparr>cartState = JObj [(''items'', JArr [])],
          lastMergedStateRef = Some (''{'' @ [CHR 0x22] @ ''items'' @ [CHR 0x22] @ '':[]}'')\<rparr>,
         EqualState)"
  by (simp add: run_defs)

section \<open>The local edit\<close>

lemma cartItems_closed:
  "cartItems cs =
     (case cs of
        JObj kvs \<Rightarrow> (case ownProp kvs ''items'' of JArr xs \<Rightarrow> xs | _ \<Rightarrow> [])
      | _ \<Rightarrow> [])"
proof (cases cs)
  case (JObj kvs)
  then show ?thesis
    by (cases "ownProp kvs ''items''") (simp_all add: cartItems_def optProp_def)
qed (simp_all add: cartItems_def optProp_def)

lemma cartItems_nullish: "nullish cs \<Longrightarrow> cartItems cs = []"
  by (cases cs) (simp_all add: cartItems_closed)

lemma copiedItems_closed: "\<not> nullish b \<Longrightarrow> copiedItems b = Inr (map copyItem (cartItems b))"
proof (cases b)
  case (JObj kvs)
  then show ?thesis
    by (cases "ownProp kvs ''items''") (simp_all add: copiedItems_def cartItems_closed)
qed (simp_all add: copiedItems_def cartItems_closed)

lemma nameIs_copyItem: "nameIs name (copyItem x) = Inr (fields x ''name'' = Some (JStr name))"
proof -
  have "getProp (copyItem x) ''name'' = Inr (case fields x ''name'' of None \<Rightarrow> JUndefined | Some v \<Rightarrow> v)"
    using fields_copyItem [of x] by (simp add: copyItem_def ownProp_fields)
  then show ?thesis
    by (auto simp: nameIs_def split: option.splits)
qed

lemma findIndex_none: "(\<forall>x \<in> set xs. p x = Inr False) \<Longrightarrow> findIndex p xs = Inr None"
  by (induction xs) simp_all

lemma findIndex_first:
  "i < length xs \<Longrightarrow> p (xs ! i) = Inr True \<Longrightarrow> (\<forall>j<i. p (xs ! j) = Inr False) \<Longrightarrow>
   findIndex p xs = Inr (Some i)"
proof (induction xs arbitrary: i)
  case Nil
  then show ?case by simp
next
  case (Cons x xs)
  show ?case
  proof (cases i)
    case 0
    with Cons.prems show ?thesis by simp
  next
    case (Suc i')
    from Cons.prems Suc have x: "p x = Inr False" by auto
    from Cons.prems Suc have "i' < length xs" "p (xs ! i') = Inr True" "\<forall>j<i'. p (xs ! j) = Inr False"
      by auto
    from Cons.IH [OF this] x Suc show ?thesis by simp
  qed
qed

lemma fields_spread_state: "map_of (spreadInto [] b) = fields b"
  by (simp add: spreadInto_def map_of_setAll fields_def)

lemma updater_missing:
  assumes "\<forall>item \<in> set (cartItems cs). fields item ''name'' \<noteq> Some (JStr name)"
  shows "adjustQuantityUpdater name delta cs = Inr (nullishCoalesce cs (JObj []))"
proof -
  let ?b = "nullishCoalesce cs (JObj [])"
  have nn: "\<not> nullish ?b" by (cases cs) (simp_all add: nullishCoalesce_def)
  have items: "cartItems ?b = cartItems cs"
    by (cases cs) (simp_all add: nullishCoalesce_def cartItems_closed ownProp_def)
  have "findIndex (nameIs name) (map copyItem (cartItems cs)) = Inr None"
    using assms by (intro findIndex_none) (simp add: nameIs_copyItem)
  then show ?thesis
    by (simp add: adjustQuantityUpdater_def Let_def copiedItems_closed [OF nn] items)
qed

text \<open>
  \<open>2 ^ 53 + 1\<close> lies halfway between two doubles and goes to the even one; the first
  integer that rounds to an infinity is \<open>2 ^ 1024 - 2 ^ 970\<close>.
\<close>

lemma roundDouble_examples:
  "roundDouble 9007199254740993 = Some 9007199254740992"
  "roundDouble 9007199254740995 = Some 9007199254740996"
  "roundDouble (- 9007199254740993) = Some (- 9007199254740992)"
  "roundDouble (2 ^ 1024 - 2 ^ 970 - 1) = Some (2 ^ 1024 - 2 ^ 971)"
  "roundDouble (2 ^ 1024 - 2 ^ 970) = None"
  by code_simp+

lemma roundDouble_safe: "\<bar>x\<bar> \<le> 2 ^ 53 \<Longrightarrow> roundDouble x = Some x"
  by (simp add: roundDouble_def)

lemma quantity_copyItem:
  "fields x ''quantity'' = Some (JNum q) \<Longrightarrow> getProp (copyItem x) ''quantity'' = Inr (JNum q)"
  using fields_copyItem [of x] by (simp add: copyItem_def ownProp_fields)

lemma editAt_copy:
  assumes "i < length items" and "fields (items ! i) ''quantity'' = Some (JNum q)"
    and "roundDouble (q + delta) = Some s"
  shows "editAt i delta (map copyItem items) =
     Inr (if max 0 s = 0 then splice1 i (map copyItem items)
          else (map copyItem items)[i := JObj (objSet (spreadInto [] (copyItem (items ! i))) ''quantity''
                                              (JNum (max 0 s)))])"
  using assms(1,3) quantity_copyItem [OF assms(2)]
  by (simp add: editAt_def Let_def nullishCoalesce_def addDoubles_def)

lemma editAt_overflow:
  assumes "i < length items" and "fields (items ! i) ''quantity'' = Some (JNum q)"
    and "roundDouble (q + delta) = None"
  shows "editAt i delta (map copyItem items) = Inl NotFinite"
  using assms(1,3) quantity_copyItem [OF assms(2)]
  by (simp add: editAt_def Let_def nullishCoalesce_def addDoubles_def)

lemma fields_requantified:
  "fields (JObj (objSet (spreadInto [] (copyItem x)) ''quantity'' v)) = (fields x)(''quantity'' \<mapsto> v)"
proof -
  have "fields (JObj (objSet (spreadInto [] (copyItem x)) ''quantity'' v))
          = (map_of (spreadInto [] (copyItem x)))(''quantity'' \<mapsto> v)"
    by (rule fields_objSet) (simp add: distinct_spreadInto)
  then show ?thesis by (simp add: fields_spread_state fields_copyItem)
qed

text \<open>
  Claim C5. Let the cart hold, at the first index \<open>i\<close> where an item is named
  \<open>name\<close>, an item of quantity \<open>q\<close>; let \<open>name\<close> be non-empty and \<open>delta\<close>
  non-zero; let \<open>q\<close> and \<open>delta\<close> be numbers (doubles), and \<open>s\<close> their sum as
  line 88 computes it, which is \<open>q + delta\<close> itself whenever that lies within
  \<open>2 ^ 53\<close> of 0. Then \<^verbatim>\<open>adjustQuantity\<close> publishes a state that differs from the
  cart in its \<^verbatim>\<open>items\<close> only; with \<open>nextQuantity = max 0 s\<close>, the new items are the
  copies of the old ones without the item at \<open>i\<close> when \<open>nextQuantity = 0\<close>, and
  otherwise the copies of the old ones with, at \<open>i\<close>, an item that has the fields of
  the old one except for \<^verbatim>\<open>quantity\<close>, which is \<open>nextQuantity\<close>.
\<close>

theorem adjustQuantity_found:
  assumes "name \<noteq> []" and "delta \<noteq> 0"
    and "i < length (cartItems (cartState e))"
    and "fields (cartItems (cartState e) ! i) ''name'' = Some (JStr name)"
    and "\<forall>j<i. fields (cartItems (cartState e) ! j) ''name'' \<noteq> Some (JStr name)"
    and "fields (cartItems (cartState e) ! i) ''quantity'' = Some (JNum q)"
    and "roundDouble q = Some q" and "roundDouble delta = Some delta"
    and "roundDouble (q + delta) = Some s"
  shows "\<exists>kvs items'.
      adjustQuantity name delta e = Inr (e\<lparr>cartState := JObj kvs\<rparr>)
    \<and> fields (JObj kvs) = (fields (cartState e))(''items'' \<mapsto> JArr items')
    \<and> (if max 0 s = 0
       then items' = map copyItem (take i (cartItems (cartState e)) @ drop (Suc i) (cartItems (cartState e)))
       else length items' = length (cartItems (cartState e))
          \<and> (\<forall>j<length items'. j \<noteq> i \<longrightarrow> items' ! j = copyItem (cartItems (cartState e) ! j))
          \<and> fields (items' ! i)
              = (fields (cartItems (cartState e) ! i))(''quantity'' \<mapsto> JNum (max 0 s)))
    \<and> (\<bar>q + delta\<bar> \<le> 2 ^ 53 \<longrightarrow> s = q + delta)"
proof -
  let ?cs = "cartState e"
  let ?items = "cartItems ?cs"
  let ?nq = "max 0 s"
  let ?new = "JObj (objSet (spreadInto [] (copyItem (?items ! i))) ''quantity'' (JNum ?nq))"
  let ?items' = "if ?nq = 0 then splice1 i (map copyItem ?items) else (map copyItem ?items)[i := ?new]"
  let ?kvs = "objSet (spreadInto [] ?cs) ''items'' (JArr ?items')"
  from assms(3) have nn: "\<not> nullish ?cs" using cartItems_nullish [of ?cs] by auto
  then have base: "nullishCoalesce ?cs (JObj []) = ?cs" by (simp add: nullishCoalesce_def)
  have found: "findIndex (nameIs name) (map copyItem ?items) = Inr (Some i)"
    using assms(3-5) by (intro findIndex_first) (simp_all add: nameIs_copyItem)
  have upd: "adjustQuantityUpdater name delta ?cs = Inr (JObj ?kvs)"
    by (simp add: adjustQuantityUpdater_def Let_def base copiedItems_closed [OF nn] found
        editAt_copy [OF assms(3) assms(6) assms(9)])
  have run: "adjustQuantity name delta e = Inr (e\<lparr>cartState := JObj ?kvs\<rparr>)"
    using assms(1,2) upd by (simp add: adjustQuantity_def setCartState_def)
  have flds: "fields (JObj ?kvs) = (fields ?cs)(''items'' \<mapsto> JArr ?items')"
    using fields_objSet [of "spreadInto [] ?cs" "''items''" "JArr ?items'"]
    by (simp add: distinct_spreadInto fields_spread_state)
  have shape: "if ?nq = 0
       then ?items' = map copyItem (take i ?items @ drop (Suc i) ?items)
       else length ?items' = length ?items
          \<and> (\<forall>j<length ?items'. j \<noteq> i \<longrightarrow> ?items' ! j = copyItem (?items ! j))
          \<and> fields (?items' ! i) = (fields (?items ! i))(''quantity'' \<mapsto> JNum ?nq)"
    using assms(3) by (simp add: splice1_def take_map drop_map fields_requantified)
  have exact: "\<bar>q + delta\<bar> \<le> 2 ^ 53 \<longrightarrow> s = q + delta"
    using assms(9) roundDouble_safe [of "q + delta"] by auto
  from run flds shape exact show ?thesis by blast
qed

theorem adjustQuantity_found_witness:
  "''A'' \<noteq> [] \<and> (- 1 :: int) \<noteq> 0
   \<and> cartItems (JObj [(''items'', JArr [JObj [(''name'', JStr ''A''), (''quantity'', JNum 1)]])])
       = [JObj [(''name'', JStr ''A''), (''quantity'', JNum 1)]]
   \<and> fields (JObj [(''name'', JStr ''A''), (''quantity'', JNum 1)]) ''name'' = Some (JStr ''A'')
   \<and> fields (JObj [(''name'', JStr ''A''), (''quantity'', JNum 1)]) ''quantity'' = Some (JNum 1)
   \<and> roundDouble 1 = Some 1 \<and> roundDouble (- 1) = Some (- 1) \<and> roundDouble (1 + (- 1)) = Some 0
   \<and> max 0 (0 :: int) = 0
   \<and> adjustQuantity ''A'' (- 1)
        \<lparr>cartState = JObj [(''items'', JArr [JObj [(''name'', JStr ''A''), (''quantity'', JNum 1)]])],
         lastMergedStateRef = Some ''__cart_merge_unset__''\<rparr>
      = Inr \<lparr>cartState = JObj [(''items'', JArr [])], lastMergedStateRef = Some ''__cart_merge_unset__''\<rparr>"
  using adjustQuantity_found [of "''A''" "- 1" 0
      "\<lparr>cartState = JObj [(''items'', JArr [JObj [(''name'', JStr ''A''), (''quantity'', JNum 1)]])],
        lastMergedStateRef = Some ''__cart_merge_unset__''\<rparr>" 1 0]
  by (simp add: run_defs fields_def)

text \<open>
  Claim C6, as the code has it. \<^verbatim>\<open>adjustQuantity\<close> leaves the engine as it is when
  \<open>name\<close> is empty, when \<open>delta\<close> is 0, or when no item of a non-null cart is named
  \<open>name\<close>. On a null cart an empty name or a zero delta leaves the cart null (the
  guard returns before any write), and any other edit publishes the empty object
  \<^verbatim>\<open>{}\<close> (line 75, \<^verbatim>\<open>prevState ?? {}\<close>). In every one of these cases the items read
  from the cart (line 66) are the same before and after.
\<close>

theorem adjustQuantity_no_op:
  assumes "name = [] \<or> delta = 0
           \<or> (\<forall>item \<in> set (cartItems (cartState e)). fields item ''name'' \<noteq> Some (JStr name))"
  shows "\<exists>e'. adjustQuantity name delta e = Inr e'
           \<and> e' = (if name \<noteq> [] \<and> delta \<noteq> 0 \<and> nullish (cartState e) then e\<lparr>cartState := JObj []\<rparr> else e)
           \<and> cartItems (cartState e') = cartItems (cartState e)"
proof -
  let ?e' = "if name \<noteq> [] \<and> delta \<noteq> 0 \<and> nullish (cartState e) then e\<lparr>cartState := JObj []\<rparr> else e"
  have run: "adjustQuantity name delta e = Inr ?e'"
  proof (cases "name = [] \<or> delta = 0")
    case True
    then show ?thesis by (auto simp: adjustQuantity_def)
  next
    case False
    with assms have "\<forall>item \<in> set (cartItems (cartState e)). fields item ''name'' \<noteq> Some (JStr name)"
      by blast
    from updater_missing [OF this] False show ?thesis
      by (simp add: adjustQuantity_def setCartState_def nullishCoalesce_def)
  qed
  have "cartItems (JObj []) = []" by (simp add: cartItems_closed ownProp_def)
  then have "cartItems (cartState ?e') = cartItems (cartState e)" by (simp add: cartItems_nullish)
  with run show ?thesis by blast
qed

theorem adjustQuantity_no_op_witness:
  "fields (JObj [(''name'', JStr ''A''), (''quantity'', JNum 1)]) ''name'' \<noteq> Some (JStr ''Z'')
   \<and> adjustQuantity ''Z'' 1
        \<lparr>cartState = JObj [(''items'', JArr [JObj [(''name'', JStr ''A''), (''quantity'', JNum 1)]])],
         lastMergedStateRef = Some ''__cart_merge_unset__''\<rparr>
      = Inr \<lparr>cartState = JObj [(''items'', JArr [JObj [(''name'', JStr ''A''), (''quantity'', JNum 1)]])],
             lastMergedStateRef = Some ''__cart_merge_unset__''\<rparr>"
  using adjustQuantity_no_op [of "''Z''" 1
      "\<lparr>cartState = JObj [(''items'', JArr [JObj [(''name'', JStr ''A''), (''quantity'', JNum 1)]])],
        lastMergedStateRef = Some ''__cart_merge_unset__''\<rparr>"]
  by (simp add: cartItems_closed ownProp_def fields_def)

text \<open>
  The claim as stated fails on a null cart: the result is \<^verbatim>\<open>{}\<close> or \<^verbatim>\<open>null\<close>, never
  \<^verbatim>\<open>{items: []}\<close>.
\<close>

theorem adjustQuantity_null_state_counterexample:
  "adjustQuantity ''Z'' 1 \<lparr>cartState = JNull, lastMergedStateRef = Some ''__cart_merge_unset__''\<rparr>
     = Inr \<lparr>cartState = JObj [], lastMergedStateRef = Some ''__cart_merge_unset__''\<rparr>
   \<and> JObj [] \<noteq> JObj [(''items'', JArr [])]
   \<and> adjustQuantity [] 1 \<lparr>cartState = JNull, lastMergedStateRef = Some ''__cart_merge_unset__''\<rparr>
     = Inr \<lparr>cartState = JNull, lastMergedStateRef = Some ''__cart_merge_unset__''\<rparr>
   \<and> JNull \<noteq> JObj [(''items'', JArr [])]"
  by (simp add: run_defs)

section \<open>The merge: overlaying the incoming items\<close>

lemma mapGet_mapSet: "mapGet (mapSet m k v) k' = (if k' = k then v else mapGet m k')"
  by (induction m) (auto simp: mapGet_def)

lemma mapGet_nil: "mapGet [] k = JUndefined"
  by (simp add: mapGet_def)

text \<open>The entry of one name after the overlay loop.\<close>

lemma overlay_entry:
  assumes "truthy n"
  shows "mapGet (fold overlayStep incoming m) n =
     (if filter (\<lambda>item. itemName item = n) incoming = [] then mapGet m n
      else JObj (fold (\<lambda>item l. spreadInto l item) (filter (\<lambda>item. itemName item = n) incoming)
                  (spreadInto [] (mapGet m n))))"
proof (induction incoming arbitrary: m)
  case Nil
  then show ?case by simp
next
  case (Cons item incoming)
  show ?case
  proof (cases "itemName item = n")
    case True
    let ?l = "spreadInto (spreadInto [] (mapGet m n)) item"
    have step: "mapGet (overlayStep item m) n = JObj ?l"
      using True assms by (simp add: overlayStep_def mapGet_mapSet)
    have copy: "spreadInto [] (JObj ?l) = ?l"
      by (intro spreadInto_copy distinct_spreadInto) simp
    show ?thesis
      using True by (simp add: Cons.IH step copy)
  next
    case False
    have "mapGet (overlayStep item m) n = mapGet m n"
      using False by (simp add: overlayStep_def mapGet_mapSet)
    with False show ?thesis by (simp add: Cons.IH)
  qed
qed

lemma fields_spread_fold:
  "distinct (map fst l) \<Longrightarrow>
   fields (JObj (fold (\<lambda>item l. spreadInto l item) items l)) = foldl (++) (map_of l) (map fields items)"
proof (induction items arbitrary: l)
  case Nil
  then show ?case by (simp add: fields_def map_of_rev_distinct)
next
  case (Cons item items)
  have d: "distinct (map fst (spreadInto l item))" using Cons.prems by (rule distinct_spreadInto)
  have "map_of (spreadInto l item) = map_of l ++ fields item"
    by (simp add: spreadInto_def map_of_setAll fields_def)
  with Cons.IH [OF d] show ?case by simp
qed

lemma overlay_fields:
  assumes "truthy n"
  shows "fields (mapGet (fold overlayStep incoming m) n)
     = foldl (++) (fields (mapGet m n)) (map fields (filter (\<lambda>item. itemName item = n) incoming))"
proof (cases "filter (\<lambda>item. itemName item = n) incoming = []")
  case True
  then show ?thesis by (simp add: overlay_entry [OF assms])
next
  case False
  have "distinct (map fst (spreadInto [] (mapGet m n)))" by (simp add: distinct_spreadInto)
  from fields_spread_fold [OF this] False show ?thesis
    by (simp add: overlay_entry [OF assms] fields_spread_state)
qed

lemma keys_mapSet:
  "map fst (mapSet m k v) = (if k \<in> fst ` set m then map fst m else map fst m @ [k])"
  by (induction m) force+

lemma keyset_mapSet: "fst ` set (mapSet m k v) = insert k (fst ` set m)"
proof -
  have "set (map fst (mapSet m k v)) = insert k (set (map fst m))"
    unfolding keys_mapSet by auto
  then show ?thesis by simp
qed

lemma mapGet_in_set: "k \<in> fst ` set m \<Longrightarrow> (k, mapGet m k) \<in> set m"
  by (induction m) (auto simp: mapGet_def)

lemma overlay_keyset:
  "fst ` set (fold overlayStep incoming m)
     = fst ` set m \<union> {itemName item |item. item \<in> set incoming \<and> truthy (itemName item)}"
proof (induction incoming arbitrary: m)
  case Nil
  then show ?case by simp
next
  case (Cons item incoming)
  show ?case
    by (simp add: Cons.IH) (auto simp: overlayStep_def keyset_mapSet)
qed

text \<open>
  Claim C3. For every list of base items and of incoming items, both loops run to the
  end; and for every non-empty \<open>name\<close> the entry of \<open>name\<close> in the resulting map
  has the fields of the entry the base loop left there (none when there is no such
  entry), overridden in turn by the fields of each incoming item of that name, in
  arrival order: an incoming field wins over an existing one, a field no incoming item
  carries is kept, and of two incoming items the later wins. With no incoming item of
  that name the entry is the base entry itself; with one, the entry is in the map, so
  among the next items.
\<close>

theorem merge_overlays_incoming:
  assumes "name \<noteq> []"
  shows "\<exists>m0 m.
      forEach indexItem baseItems [] = Inr m0
    \<and> itemsByName baseItems incoming = Inr m
    \<and> nextItemsOf baseItems incoming = Inr (map snd m)
    \<and> fields (mapGet m (JStr name))
        = foldl (++) (fields (mapGet m0 (JStr name)))
            (map fields (filter (\<lambda>item. itemName item = JStr name) incoming))
    \<and> (if filter (\<lambda>item. itemName item = JStr name) incoming = []
       then mapGet m (JStr name) = mapGet m0 (JStr name)
       else (JStr name, mapGet m (JStr name)) \<in> set m)"
proof -
  let ?n = "JStr name"
  let ?idx = "fold indexStep baseItems []"
  let ?res = "fold overlayStep incoming ?idx"
  from assms have n: "truthy ?n" by simp
  have a: "forEach indexItem baseItems [] = Inr ?idx"
    by (simp add: forEach_pure [of indexItem indexStep] indexItem_pure)
  have b: "itemsByName baseItems incoming = Inr ?res" by (rule itemsByName_pure)
  have c: "nextItemsOf baseItems incoming = Inr (map snd ?res)" by (simp add: nextItemsOf_def b)
  have d: "fields (mapGet ?res ?n)
        = foldl (++) (fields (mapGet ?idx ?n)) (map fields (filter (\<lambda>item. itemName item = ?n) incoming))"
    by (rule overlay_fields [OF n])
  have e: "if filter (\<lambda>item. itemName item = ?n) incoming = [] then mapGet ?res ?n = mapGet ?idx ?n
       else (?n, mapGet ?res ?n) \<in> set ?res"
  proof (cases "filter (\<lambda>item. itemName item = ?n) incoming = []")
    case True
    then show ?thesis by (simp add: overlay_entry [OF n])
  next
    case False
    then obtain item where "item \<in> set incoming" "itemName item = ?n"
      by (auto simp: filter_empty_conv)
    with n have "?n \<in> fst ` set ?res" unfolding overlay_keyset by force
    from mapGet_in_set [OF this] False show ?thesis by simp
  qed
  from a b c d e show ?thesis by blast
qed

theorem merge_overlays_incoming_witness:
  "''Margherita'' \<noteq> []
   \<and> nextItemsOf [JObj [(''name'', JStr ''Margherita''), (''quantity'', JNum 2), (''price'', JNum 10)]]
                  [JObj [(''name'', JStr ''Margherita''), (''quantity'', JNum 5)]]
       = Inr [JObj [(''name'', JStr ''Margherita''), (''quantity'', JNum 5), (''price'', JNum 10)]]
   \<and> nextItemsOf [] [JObj [(''name'', JStr ''X''), (''quantity'', JNum 1)],
                      JObj [(''name'', JStr ''X''), (''quantity'', JNum 3)]]
       = Inr [JObj [(''name'', JStr ''X''), (''quantity'', JNum 3)]]
   \<and> (\<exists>m. itemsByName [JObj [(''name'', JStr ''Margherita''), (''quantity'', JNum 2), (''price'', JNum 10)]]
                        [JObj [(''name'', JStr ''Margherita''), (''quantity'', JNum 5)]] = Inr m
          \<and> fields (mapGet m (JStr ''Margherita''))
              = [''name'' \<mapsto> JStr ''Margherita'', ''quantity'' \<mapsto> JNum 2, ''price'' \<mapsto> JNum 10]
                ++ [''name'' \<mapsto> JStr ''Margherita'', ''quantity'' \<mapsto> JNum 5])"
  using merge_overlays_incoming [of "''Margherita''"
      "[JObj [(''name'', JStr ''Margherita''), (''quantity'', JNum 2), (''price'', JNum 10)]]"
      "[JObj [(''name'', JStr ''Margherita''), (''quantity'', JNum 5)]]"]
  by (simp add: run_defs fields_def itemName_def)

section \<open>Serialization failures\<close>

lemma mergeEffect_run:
  assumes "\<not> (nullish toolInput \<and> nullish toolOutput \<and> nullish widgetState)"
    and "nextStateOf toolInput widgetState (cartState e) = Inr ns"
  shows "mergeEffect toolInput toolOutput widgetState e
           = changeDetector (shouldForceSyncFromResponse widgetState toolOutput) ns e"
  unfolding mergeEffect_def using assms(2) by (simp only: if_not_P [OF assms(1)] sum.case)

lemma widgetStateEqual_throws:
  assumes "JSON_stringify a = Inr s" and "\<not> nullish a" and "\<not> nullish b"
    and "JSON_stringify b = Inl err"
  shows "widgetStateEqual a b = Inl err"
  using assms by (simp add: widgetStateEqual_def)

text \<open>
  Claim C8, as the code has it. Neither \<^verbatim>\<open>JSON.stringify\<close> of the effect is guarded.
  When the next state cannot be serialized (line 157) the effect raises with the ref
  and the cart untouched; when the next state can be serialized, differs from the ref
  and resync is not forced, but the local cart cannot be serialized, the comparison at
  line 166 raises after line 164 has written the ref. In both cases nothing is
  published.
\<close>

theorem unserializable_state_throws:
  assumes "\<not> (nullish toolInput \<and> nullish toolOutput \<and> nullish widgetState)"
    and "nextStateOf toolInput widgetState (cartState e) = Inr nextState"
  shows "(\<forall>err. JSON_stringify nextState = Inl err \<longrightarrow>
            mergeEffect toolInput toolOutput widgetState e = (e, Threw err))
       \<and> (\<forall>serialized err.
            JSON_stringify nextState = Inr serialized
            \<and> \<not> shouldForceSyncFromResponse widgetState toolOutput
            \<and> serialized \<noteq> lastMergedStateRef e
            \<and> \<not> nullish (cartState e) \<and> JSON_stringify (cartState e) = Inl err \<longrightarrow>
            mergeEffect toolInput toolOutput widgetState e
              = (e\<lparr>lastMergedStateRef := serialized\<rparr>, Threw err))"
proof (intro conjI allI impI)
  fix err
  assume "JSON_stringify nextState = Inl err"
  then show "mergeEffect toolInput toolOutput widgetState e = (e, Threw err)"
    by (simp add: mergeEffect_run [OF assms] changeDetector_def)
next
  fix serialized err
  assume h: "JSON_stringify nextState = Inr serialized
            \<and> \<not> shouldForceSyncFromResponse widgetState toolOutput
            \<and> serialized \<noteq> lastMergedStateRef e
            \<and> \<not> nullish (cartState e) \<and> JSON_stringify (cartState e) = Inl err"
  from assms(2) have "\<not> nullish nextState"
    using nextStateOf_total [of toolInput widgetState "cartState e"] by auto
  with h have "widgetStateEqual nextState (cartState e) = Inl err"
    by (intro widgetStateEqual_throws) simp_all
  with h show "mergeEffect toolInput toolOutput widgetState e
              = (e\<lparr>lastMergedStateRef := serialized\<rparr>, Threw err)"
    by (simp add: mergeEffect_run [OF assms] changeDetector_def)
qed

theorem unserializable_state_throws_witness:
  "\<not> (nullish JNull \<and> nullish JNull \<and> nullish (JObj [(''items'', JArr []), (''total'', JBigInt 1)]))
   \<and> nextStateOf JNull (JObj [(''items'', JArr []), (''total'', JBigInt 1)]) (JObj [(''items'', JArr [])])
        = Inr (JObj [(''items'', JArr []), (''total'', JBigInt 1)])
   \<and> JSON_stringify (JObj [(''items'', JArr []), (''total'', JBigInt 1)]) = Inl TypeError
   \<and> mergeEffect JNull JNull (JObj [(''items'', JArr []), (''total'', JBigInt 1)])
        \<lparr>cartState = JObj [(''items'', JArr [])], lastMergedStateRef = Some ''__cart_merge_unset__''\<rparr>
      = (\<lparr>cartState = JObj [(''items'', JArr [])], lastMergedStateRef = Some ''__cart_merge_unset__''\<rparr>,
         Threw TypeError)"
proof -
  let ?ws = "JObj [(''items'', JArr []), (''total'', JBigInt 1)]"
  let ?e = "\<lparr>cartState = JObj [(''items'', JArr [])], lastMergedStateRef = Some ''__cart_merge_unset__''\<rparr>"
  have a: "\<not> (nullish JNull \<and> nullish JNull \<and> nullish ?ws)" by simp
  have b: "nextStateOf JNull ?ws (cartState ?e) = Inr ?ws" by (simp add: run_defs)
  have c: "JSON_stringify ?ws = Inl TypeError" by (simp add: run_defs)
  from unserializable_state_throws [OF a b] a b c show ?thesis by simp
qed

text \<open>
  The claim as stated fails: a host state, or a local cart, that holds a \<^verbatim>\<open>bigint\<close>
  makes the effect raise a TypeError, and no state is published.
\<close>

theorem unserializable_state_counterexample:
  "JSON_stringify (JObj [(''items'', JArr []), (''total'', JBigInt 1)]) = Inl TypeError
   \<and> mergeEffect JNull JNull (JObj [(''items'', JArr []), (''total'', JBigInt 1)])
        (initialEngine (JObj [(''items'', JArr []), (''total'', JBigInt 1)]))
      = (initialEngine (JObj [(''items'', JArr []), (''total'', JBigInt 1)]), Threw TypeError)
   \<and> JSON_stringify (JObj [(''items'', JArr [JBigInt 1])]) = Inl TypeError
   \<and> mergeEffect JNull JNull (JObj [(''items'', JArr [])])
        \<lparr>cartState = JObj [(''items'', JArr [JBigInt 1])], lastMergedStateRef = Some ''__cart_merge_unset__''\<rparr>
      = (\<lparr>cartState = JObj [(''items'', JArr [JBigInt 1])],
          lastMergedStateRef = Some (''{'' @ [CHR 0x22] @ ''items'' @ [CHR 0x22] @ '':[]}'')\<rparr>,
         Threw TypeError)"
  by (simp add: run_defs)

section \<open>Quantities are never negative\<close>

lemma quantityOk_iff: "quantityOk item \<longleftrightarrow> (\<exists>q\<ge>0. fields item ''quantity'' = Some (JNum q))"
  by (auto simp: quantityOk_def split: option.splits jsval.splits)

lemma quantityOk_copyItem: "quantityOk (copyItem x) = quantityOk x"
  by (simp add: quantityOk_def fields_copyItem)

lemma quantityOk_overlay:
  assumes "quantityOk item"
  shows "quantityOk (JObj (spreadInto (spreadInto [] ex) item))"
proof -
  from assms obtain q where q: "0 \<le> q" "fields item ''quantity'' = Some (JNum q)"
    by (auto simp: quantityOk_iff)
  have "fields (JObj (spreadInto (spreadInto [] ex) item)) = map_of (spreadInto [] ex) ++ fields item"
    by (rule fields_spreadInto) (simp add: distinct_spreadInto)
  with q show ?thesis by (simp add: quantityOk_iff map_add_def)
qed

lemma set_mapSet: "set (mapSet m k v) \<subseteq> insert (k, v) (set m)"
  by (induction m) (auto split: if_splits)

lemma values_indexStep:
  "quantityOk item \<Longrightarrow> \<forall>v \<in> snd ` set m. quantityOk v \<Longrightarrow> \<forall>v \<in> snd ` set (indexStep item m). quantityOk v"
  using set_mapSet [of m "itemName item" item] by (auto simp: indexStep_def)

lemma values_overlayStep:
  assumes "quantityOk item" and "\<forall>v \<in> snd ` set m. quantityOk v"
  shows "\<forall>v \<in> snd ` set (overlayStep item m). quantityOk v"
proof (cases "truthy (itemName item)")
  case True
  let ?v = "JObj (spreadInto (spreadInto [] (mapGet m (itemName item))) item)"
  have "set (overlayStep item m) \<subseteq> insert (itemName item, ?v) (set m)"
    using True set_mapSet [of m "itemName item" ?v] by (simp add: overlayStep_def)
  moreover have "quantityOk ?v" using assms(1) by (rule quantityOk_overlay)
  ultimately show ?thesis using assms(2) by auto
next
  case False
  with assms(2) show ?thesis by (simp add: overlayStep_def)
qed

lemma values_fold_index:
  "\<forall>item \<in> set items. quantityOk item \<Longrightarrow> \<forall>v \<in> snd ` set m. quantityOk v \<Longrightarrow>
   \<forall>v \<in> snd ` set (fold indexStep items m). quantityOk v"
proof (induction items arbitrary: m)
  case Nil
  then show ?case by simp
next
  case (Cons item items)
  from Cons.prems have "\<forall>v \<in> snd ` set (indexStep item m). quantityOk v"
    by (intro values_indexStep) simp_all
  with Cons show ?case by simp
qed

lemma values_fold_overlay:
  "\<forall>item \<in> set items. quantityOk item \<Longrightarrow> \<forall>v \<in> snd ` set m. quantityOk v \<Longrightarrow>
   \<forall>v \<in> snd ` set (fold overlayStep items m). quantityOk v"
proof (induction items arbitrary: m)
  case Nil
  then show ?case by simp
next
  case (Cons item items)
  from Cons.prems have "\<forall>v \<in> snd ` set (overlayStep item m). quantityOk v"
    by (intro values_overlayStep) simp_all
  with Cons show ?case by simp
qed

lemma cartItems_with_items: "cartItems (JObj (objSet (spreadInto [] b) ''items'' (JArr xs))) = xs"
proof -
  have "fields (JObj (objSet (spreadInto [] b) ''items'' (JArr xs))) ''items'' = Some (JArr xs)"
    using fields_objSet [of "spreadInto [] b" "''items''" "JArr xs"] by (simp add: distinct_spreadInto)
  then show ?thesis by (simp add: cartItems_closed ownProp_fields)
qed

lemma baseItemsOf_cartItems: "\<not> nullish b \<Longrightarrow> baseItemsOf b = Inr (cartItems b)"
  by (simp add: baseItemsOf_closed cartItems_closed)

lemma nextStateOf_closed:
  "nextStateOf toolInput widgetState cart =
     Inr (JObj (objSet (spreadInto [] (baseStateOf widgetState cart)) ''items''
            (JArr (map snd (fold overlayStep (cartItems toolInput)
                     (fold indexStep (cartItems (baseStateOf widgetState cart)) []))))))"
  by (simp add: nextStateOf_def Let_def nextItemsOf_def itemsByName_pure
      baseItemsOf_cartItems [OF baseStateOf_not_nullish] incomingItems_closed cartItems_closed)

lemma stateInv_baseStateOf:
  "stateInv widgetState \<Longrightarrow> stateInv cart \<Longrightarrow> stateInv (baseStateOf widgetState cart)"
  by (cases cart) (simp_all add: baseStateOf_def nullishCoalesce_def stateInv_def cartItems_closed ownProp_def)

lemma stateInv_nextState:
  assumes "nextStateOf toolInput widgetState cart = Inr ns"
    and "\<forall>item \<in> set (cartItems toolInput). quantityOk item"
    and "stateInv widgetState" and "stateInv cart"
  shows "stateInv ns"
proof -
  let ?b = "baseStateOf widgetState cart"
  have "\<forall>v \<in> snd ` set (fold indexStep (cartItems ?b) []). quantityOk v"
    using stateInv_baseStateOf [OF assms(3,4)] by (intro values_fold_index) (simp_all add: stateInv_def)
  with assms(2) have "\<forall>v \<in> snd ` set (fold overlayStep (cartItems toolInput) (fold indexStep (cartItems ?b) [])). quantityOk v"
    by (intro values_fold_overlay)
  with assms(1) show ?thesis
    by (auto simp: nextStateOf_closed stateInv_def cartItems_with_items)
qed

lemma mergeEffect_cart:
  "cartState (fst (mergeEffect toolInput toolOutput widgetState e)) = cartState e
   \<or> nextStateOf toolInput widgetState (cartState e)
        = Inr (cartState (fst (mergeEffect toolInput toolOutput widgetState e)))"
  by (auto simp: mergeEffect_def changeDetector_def setCartState_def Let_def
      split: sum.splits if_splits)

lemma step_merge_inv:
  assumes "stateInv (cartState e)" and "eventOk (Merge toolInput toolOutput widgetState)"
  shows "stateInv (cartState (step (Merge toolInput toolOutput widgetState) e))"
proof -
  from assms(2) have inc: "\<forall>item \<in> set (cartItems toolInput). quantityOk item"
    and ws: "stateInv widgetState"
    by (simp_all add: incomingItems_closed cartItems_closed)
  from mergeEffect_cart [of toolInput toolOutput widgetState e] show ?thesis
  proof
    assume "cartState (fst (mergeEffect toolInput toolOutput widgetState e)) = cartState e"
    with assms(1) show ?thesis by simp
  next
    assume "nextStateOf toolInput widgetState (cartState e)
        = Inr (cartState (fst (mergeEffect toolInput toolOutput widgetState e)))"
    from stateInv_nextState [OF this inc ws assms(1)] show ?thesis by simp
  qed
qed

lemma updater_found:
  assumes "i < length (cartItems cs)"
    and "fields (cartItems cs ! i) ''name'' = Some (JStr name)"
    and "\<forall>j<i. fields (cartItems cs ! j) ''name'' \<noteq> Some (JStr name)"
    and "fields (cartItems cs ! i) ''quantity'' = Some (JNum q)"
    and "roundDouble (q + delta) = Some s"
  shows "adjustQuantityUpdater name delta cs =
     Inr (JObj (objSet (spreadInto [] cs) ''items''
       (JArr (if max 0 s = 0 then splice1 i (map copyItem (cartItems cs))
              else (map copyItem (cartItems cs))
                     [i := JObj (objSet (spreadInto [] (copyItem (cartItems cs ! i))) ''quantity''
                                   (JNum (max 0 s)))]))))"
proof -
  from assms(1) have nn: "\<not> nullish cs" using cartItems_nullish [of cs] by auto
  then have base: "nullishCoalesce cs (JObj []) = cs" by (simp add: nullishCoalesce_def)
  have found: "findIndex (nameIs name) (map copyItem (cartItems cs)) = Inr (Some i)"
    using assms(1-3) by (intro findIndex_first) (simp_all add: nameIs_copyItem)
  show ?thesis
    by (simp add: adjustQuantityUpdater_def Let_def base copiedItems_closed [OF nn] found
        editAt_copy [OF assms(1) assms(4) assms(5)])
qed

lemma updater_overflow:
  assumes "i < length (cartItems cs)"
    and "fields (cartItems cs ! i) ''name'' = Some (JStr name)"
    and "\<forall>j<i. fields (cartItems cs ! j) ''name'' \<noteq> Some (JStr name)"
    and "fields (cartItems cs ! i) ''quantity'' = Some (JNum q)"
    and "roundDouble (q + delta) = None"
  shows "adjustQuantityUpdater name delta cs = Inl NotFinite"
proof -
  from assms(1) have nn: "\<not> nullish cs" using cartItems_nullish [of cs] by auto
  then have base: "nullishCoalesce cs (JObj []) = cs" by (simp add: nullishCoalesce_def)
  have found: "findIndex (nameIs name) (map copyItem (cartItems cs)) = Inr (Some i)"
    using assms(1-3) by (intro findIndex_first) (simp_all add: nameIs_copyItem)
  show ?thesis
    by (simp add: adjustQuantityUpdater_def Let_def base copiedItems_closed [OF nn] found
        editAt_overflow [OF assms(1) assms(4) assms(5)])
qed

lemma first_match:
  "\<exists>x \<in> set xs. P x \<Longrightarrow> \<exists>i<length xs. P (xs ! i) \<and> (\<forall>j<i. \<not> P (xs ! j))"
proof (induction xs)
  case Nil
  then show ?case by simp
next
  case (Cons x xs)
  show ?case
  proof (cases "P x")
    case True
    then have "0 < length (x # xs) \<and> P ((x # xs) ! 0) \<and> (\<forall>j<0. \<not> P ((x # xs) ! j))" by simp
    then show ?thesis by blast
  next
    case False
    with Cons.prems have "\<exists>y \<in> set xs. P y" by auto
    from Cons.IH [OF this] obtain i where i: "i < length xs" "P (xs ! i)" "\<forall>j<i. \<not> P (xs ! j)"
      by blast
    have "\<forall>j<Suc i. \<not> P ((x # xs) ! j)"
    proof (intro allI impI)
      fix j assume "j < Suc i"
      with False i(3) show "\<not> P ((x # xs) ! j)" by (cases j) auto
    qed
    with i(1,2) have "Suc i < length (x # xs) \<and> P ((x # xs) ! Suc i) \<and> (\<forall>j<Suc i. \<not> P ((x # xs) ! j))"
      by simp
    then show ?thesis by blast
  qed
qed

lemma quantityOk_requantified:
  "0 \<le> n \<Longrightarrow> quantityOk (JObj (objSet (spreadInto [] (copyItem x)) ''quantity'' (JNum n)))"
  by (simp add: quantityOk_iff fields_requantified)

lemma updater_inv:
  assumes "stateInv cs" and "adjustQuantityUpdater name delta cs = Inr ns"
  shows "stateInv ns"
proof (cases "\<exists>item \<in> set (cartItems cs). fields item ''name'' = Some (JStr name)")
  case False
  then have "adjustQuantityUpdater name delta cs = Inr (nullishCoalesce cs (JObj []))"
    by (intro updater_missing) blast
  with assms(2) have "ns = nullishCoalesce cs (JObj [])" by simp
  with assms(1) show ?thesis
    by (cases cs) (simp_all add: nullishCoalesce_def stateInv_def cartItems_closed ownProp_def)
next
  case True
  let ?items = "cartItems cs"
  from first_match [OF True] obtain i where i: "i < length ?items"
    "fields (?items ! i) ''name'' = Some (JStr name)"
    "\<forall>j<i. fields (?items ! j) ''name'' \<noteq> Some (JStr name)"
    by blast
  from assms(1) i(1) have "quantityOk (?items ! i)" by (simp add: stateInv_def)
  then obtain q where q: "0 \<le> q" "fields (?items ! i) ''quantity'' = Some (JNum q)"
    by (auto simp: quantityOk_iff)
  from updater_overflow [OF i q(2), of delta] assms(2)
  obtain s where s: "roundDouble (q + delta) = Some s"
    by (cases "roundDouble (q + delta)") auto
  let ?new = "JObj (objSet (spreadInto [] (copyItem (?items ! i))) ''quantity'' (JNum (max 0 s)))"
  let ?items' = "if max 0 s = 0 then splice1 i (map copyItem ?items)
                 else (map copyItem ?items)[i := ?new]"
  from updater_found [OF i q(2) s] assms(2)
  have ns: "ns = JObj (objSet (spreadInto [] cs) ''items'' (JArr ?items'))" by simp
  have copies: "\<forall>x \<in> set (map copyItem ?items). quantityOk x"
    using assms(1) by (simp add: stateInv_def quantityOk_copyItem)
  have "\<forall>x \<in> set ?items'. quantityOk x"
  proof (cases "max 0 s = 0")
    case True
    have "set (splice1 i (map copyItem ?items)) \<subseteq> set (map copyItem ?items)"
      unfolding splice1_def using set_take_subset set_drop_subset by fastforce
    with copies True show ?thesis by auto
  next
    case False
    have "quantityOk ?new" by (rule quantityOk_requantified) simp
    moreover have "set ((map copyItem ?items)[i := ?new]) \<subseteq> insert ?new (set (map copyItem ?items))"
      by (rule set_update_subset_insert)
    ultimately show ?thesis using copies False by auto
  qed
  then show ?thesis by (simp add: ns stateInv_def cartItems_with_items)
qed

text \<open>
  On a cart whose quantities are numbers an edit raises nothing, and the only sum the
  embedding does not hold is one that overflows.
\<close>

lemma updater_error_overflow:
  assumes "stateInv cs" and "adjustQuantityUpdater name delta cs = Inl err"
  shows "err = NotFinite"
proof (cases "\<exists>item \<in> set (cartItems cs). fields item ''name'' = Some (JStr name)")
  case False
  then have "adjustQuantityUpdater name delta cs = Inr (nullishCoalesce cs (JObj []))"
    by (intro updater_missing) blast
  with assms(2) show ?thesis by simp
next
  case True
  from first_match [OF True] obtain i where i: "i < length (cartItems cs)"
    "fields (cartItems cs ! i) ''name'' = Some (JStr name)"
    "\<forall>j<i. fields (cartItems cs ! j) ''name'' \<noteq> Some (JStr name)"
    by blast
  from assms(1) i(1) have "quantityOk (cartItems cs ! i)" by (simp add: stateInv_def)
  then obtain q where q: "fields (cartItems cs ! i) ''quantity'' = Some (JNum q)"
    by (auto simp: quantityOk_iff)
  show ?thesis
  proof (cases "roundDouble (q + delta)")
    case None
    from updater_overflow [OF i q None] assms(2) show ?thesis by simp
  next
    case (Some s)
    from updater_found [OF i q Some] assms(2) show ?thesis by simp
  qed
qed

lemma step_edit_inv:
  assumes "stateInv (cartState e)"
  shows "stateInv (cartState (step (Edit name delta) e))"
proof (cases "name = [] \<or> delta = 0")
  case True
  with assms show ?thesis by (auto simp: adjustQuantity_def)
next
  case False
  show ?thesis
  proof (cases "adjustQuantityUpdater name delta (cartState e)")
    case (Inl err)
    with assms False show ?thesis by (simp add: adjustQuantity_def)
  next
    case (Inr ns)
    from updater_inv [OF assms Inr] Inr False show ?thesis
      by (simp add: adjustQuantity_def setCartState_def)
  qed
qed

lemma run_inv:
  "stateInv (cartState e) \<Longrightarrow> \<forall>ev \<in> set events. eventOk ev \<Longrightarrow>
   stateInv (cartState (fold step events e))"
proof (induction events arbitrary: e)
  case Nil
  then show ?case by simp
next
  case (Cons ev events)
  have "stateInv (cartState (step ev e))"
  proof (cases ev)
    case (Merge toolInput toolOutput widgetState)
    with Cons.prems show ?thesis using step_merge_inv by simp
  next
    case (Edit name delta)
    with Cons.prems show ?thesis using step_edit_inv by simp
  qed
  with Cons show ?case by simp
qed

lemma stateInv_initial: "stateInv widgetState \<Longrightarrow> stateInv (cartState (initialEngine widgetState))"
  by (simp add: initialEngine_def initialCartState_def stateInv_def cartItems_closed ownProp_def)

text \<open>
  Claim C7. Let every item that arrives have a quantity that is a number and not
  negative: the items of the initial host state, the incoming items of each merge and
  the items of the host state each merge is given (the code validates none of them).
  Then, from the initial engine, after any list of merges and local edits, every item
  of the cart has a quantity that is a number and not negative.
\<close>

theorem reachable_quantities_nonnegative:
  assumes "stateInv widgetState" and "\<forall>ev \<in> set events. eventOk ev"
  shows "stateInv (cartState (fold step events (initialEngine widgetState)))"
  using run_inv [OF stateInv_initial [OF assms(1)] assms(2)] .

theorem reachable_quantities_nonnegative_witness:
  "stateInv JNull
   \<and> eventOk (Merge (JObj [(''items'', JArr [JObj [(''name'', JStr ''A''), (''quantity'', JNum 1)]])]) JNull JNull)
   \<and> eventOk (Edit ''A'' 2)
   \<and> eventOk (Edit ''A'' (- 5))
   \<and> cartState (fold step
        [Merge (JObj [(''items'', JArr [JObj [(''name'', JStr ''A''), (''quantity'', JNum 1)]])]) JNull JNull,
         Edit ''A'' 2]
        (initialEngine JNull))
      = JObj [(''items'', JArr [JObj [(''name'', JStr ''A''), (''quantity'', JNum 3)]])]
   \<and> cartState (fold step
        [Merge (JObj [(''items'', JArr [JObj [(''name'', JStr ''A''), (''quantity'', JNum 1)]])]) JNull JNull,
         Edit ''A'' 2, Edit ''A'' (- 5)]
        (initialEngine JNull))
      = JObj [(''items'', JArr [])]
   \<and> stateInv (cartState (fold step
        [Merge (JObj [(''items'', JArr [JObj [(''name'', JStr ''A''), (''quantity'', JNum 1)]])]) JNull JNull,
         Edit ''A'' 2, Edit ''A'' (- 5)]
        (initialEngine JNull)))"
  using reachable_quantities_nonnegative [of JNull
      "[Merge (JObj [(''items'', JArr [JObj [(''name'', JStr ''A''), (''quantity'', JNum 1)]])]) JNull JNull,
        Edit ''A'' 2, Edit ''A'' (- 5)]"]
  by (simp add: run_defs stateInv_def quantityOk_def fields_def)

section \<open>Running the merge twice\<close>

lemma map_of_fresh: "k \<notin> fst ` set l \<Longrightarrow> map_of l k = None"
  by (rule iffD2 [OF map_of_eq_None_iff])

lemma alist_ext:
  "map fst l = map fst l' \<Longrightarrow> distinct (map fst l) \<Longrightarrow> map_of l = map_of l' \<Longrightarrow> l = l'"
proof (induction l arbitrary: l')
  case Nil
  then show ?case by simp
next
  case (Cons p l)
  from Cons.prems(1) obtain p' t' where l': "l' = p' # t'" by (cases l') auto
  obtain k v where p: "p = (k, v)" by (cases p)
  obtain k' v' where p': "p' = (k', v')" by (cases p')
  from Cons.prems(1) l' p p' have k: "k' = k" and keys: "map fst l = map fst t'" by auto
  from Cons.prems(3) l' p p' k have "map_of ((k, v) # l) k = map_of ((k, v') # t') k"
    by (simp only:)
  then have v: "v' = v" by simp
  from Cons.prems(2) p have fresh: "k \<notin> fst ` set l" and d: "distinct (map fst l)" by auto
  from fresh keys have fresh': "k \<notin> fst ` set t'" by (metis set_map)
  have "map_of l = map_of t'"
  proof
    fix x
    show "map_of l x = map_of t' x"
    proof (cases "x = k")
      case True
      with map_of_fresh [OF fresh] map_of_fresh [OF fresh'] show ?thesis by simp
    next
      case False
      from Cons.prems(3) l' p p' k have "map_of ((k, v) # l) x = map_of ((k, v') # t') x"
        by (simp only:)
      with False show ?thesis by simp
    qed
  qed
  from Cons.IH [OF keys d this] l' p p' k v show ?case by simp
qed

lemma setAll_idem:
  assumes "distinct (map fst l)"
  shows "fold (\<lambda>(k, x) acc. objSet acc k x) ps (fold (\<lambda>(k, x) acc. objSet acc k x) ps l)
           = fold (\<lambda>(k, x) acc. objSet acc k x) ps l"
proof (rule alist_ext)
  let ?l1 = "fold (\<lambda>(k, x) acc. objSet acc k x) ps l"
  have "fst ` set ps \<subseteq> fst ` set ?l1" by (simp add: keyset_setAll)
  then show "map fst (fold (\<lambda>(k, x) acc. objSet acc k x) ps ?l1) = map fst ?l1"
    by (rule keys_setAll_subset)
  show "distinct (map fst (fold (\<lambda>(k, x) acc. objSet acc k x) ps ?l1))"
    by (intro distinct_setAll assms)
  show "map_of (fold (\<lambda>(k, x) acc. objSet acc k x) ps ?l1) = map_of ?l1"
    by (simp add: map_of_setAll map_add_def fun_eq_iff split: option.splits)
qed

lemma spread_fold_flat:
  "fold (\<lambda>item l. spreadInto l item) items l
     = fold (\<lambda>(k, x) acc. objSet acc k x) (concat (map ownProps items)) l"
  by (induction items arbitrary: l) (simp_all add: spreadInto_def)

lemma spread_fold_idem:
  "distinct (map fst l) \<Longrightarrow>
   fold (\<lambda>item l. spreadInto l item) items (fold (\<lambda>item l. spreadInto l item) items l)
     = fold (\<lambda>item l. spreadInto l item) items l"
  by (simp add: spread_fold_flat setAll_idem)

lemma distinct_spread_fold:
  "distinct (map fst l) \<Longrightarrow> distinct (map fst (fold (\<lambda>item l. spreadInto l item) items l))"
  by (simp add: spread_fold_flat distinct_setAll)

lemma distinct_mapSet: "distinct (map fst m) \<Longrightarrow> distinct (map fst (mapSet m k v))"
  by (simp add: keys_mapSet)

lemma goodMap_mapSet:
  assumes "goodMap m" and "truthy k" and "itemName v = k"
  shows "goodMap (mapSet m k v)"
  using assms set_mapSet [of m k v] unfolding goodMap_def
  by (auto simp: distinct_mapSet)

lemma truthy_name_fields: "truthy (itemName item) \<Longrightarrow> fields item ''name'' = Some (itemName item)"
  by (cases item) (auto simp: itemName_def ownProp_fields split: option.splits)

lemma itemName_overlay:
  assumes "truthy (itemName item)"
  shows "itemName (JObj (spreadInto (spreadInto [] ex) item)) = itemName item"
proof -
  have "fields (JObj (spreadInto (spreadInto [] ex) item)) = map_of (spreadInto [] ex) ++ fields item"
    by (rule fields_spreadInto) (simp add: distinct_spreadInto)
  with truthy_name_fields [OF assms] show ?thesis
    by (simp add: itemName_def ownProp_fields map_add_def)
qed

lemma goodMap_indexStep: "goodMap m \<Longrightarrow> goodMap (indexStep item m)"
  by (simp add: indexStep_def goodMap_mapSet)

lemma goodMap_overlayStep: "goodMap m \<Longrightarrow> goodMap (overlayStep item m)"
  by (simp add: overlayStep_def goodMap_mapSet itemName_overlay)

lemma goodMap_fold_index: "goodMap m \<Longrightarrow> goodMap (fold indexStep items m)"
  by (induction items arbitrary: m) (simp_all add: goodMap_indexStep)

lemma goodMap_fold_overlay: "goodMap m \<Longrightarrow> goodMap (fold overlayStep items m)"
  by (induction items arbitrary: m) (simp_all add: goodMap_overlayStep)

lemma mapSet_fresh: "k \<notin> fst ` set m \<Longrightarrow> mapSet m k v = m @ [(k, v)]"
  by (induction m) force+

lemma reindex_values:
  "goodMap (acc @ m) \<Longrightarrow> fold indexStep (map snd m) acc = acc @ m"
proof (induction m arbitrary: acc)
  case Nil
  then show ?case by simp
next
  case (Cons p m)
  obtain k v where p: "p = (k, v)" by (cases p)
  from Cons.prems p have kv: "truthy k" "itemName v = k" and fresh: "k \<notin> fst ` set acc"
    by (auto simp: goodMap_def)
  from Cons.prems p have "goodMap ((acc @ [(k, v)]) @ m)" by simp
  from Cons.IH [OF this] kv show ?case
    by (simp add: p indexStep_def mapSet_fresh [OF fresh])
qed

lemma overlay_keys_present:
  "\<forall>item \<in> set items. truthy (itemName item) \<longrightarrow> itemName item \<in> fst ` set m \<Longrightarrow>
   map fst (fold overlayStep items m) = map fst m"
proof (induction items arbitrary: m)
  case Nil
  then show ?case by simp
next
  case (Cons item items)
  have keys: "map fst (overlayStep item m) = map fst m"
    using Cons.prems by (simp add: overlayStep_def keys_mapSet)
  then have "fst ` set (overlayStep item m) = fst ` set m" by (metis set_map)
  with Cons.prems have "\<forall>x \<in> set items. truthy (itemName x) \<longrightarrow> itemName x \<in> fst ` set (overlayStep item m)"
    by simp
  from Cons.IH [OF this] keys show ?case by simp
qed

lemma overlay_idem:
  assumes "goodMap m"
  shows "fold overlayStep items (fold overlayStep items m) = fold overlayStep items m"
proof (rule alist_ext)
  let ?m1 = "fold overlayStep items m"
  let ?m2 = "fold overlayStep items ?m1"
  have good1: "goodMap ?m1" using assms by (rule goodMap_fold_overlay)
  have "\<forall>item \<in> set items. truthy (itemName item) \<longrightarrow> itemName item \<in> fst ` set ?m1"
    unfolding overlay_keyset by blast
  then show keys: "map fst ?m2 = map fst ?m1" by (rule overlay_keys_present)
  show "distinct (map fst ?m2)" using goodMap_fold_overlay [OF good1] by (simp add: goodMap_def)
  show "map_of ?m2 = map_of ?m1"
  proof
    fix n
    show "map_of ?m2 n = map_of ?m1 n"
    proof (cases "n \<in> fst ` set ?m1")
      case False
      from False keys have "n \<notin> fst ` set ?m2" by (metis set_map)
      then have "map_of ?m2 n = None" by (rule map_of_fresh)
      moreover from False have "map_of ?m1 n = None" by (rule map_of_fresh)
      ultimately show ?thesis by simp
    next
      case True
      with good1 have n: "truthy n" by (auto simp: goodMap_def)
      from True keys have True2: "n \<in> fst ` set ?m2" by (metis set_map)
      let ?F = "filter (\<lambda>item. itemName item = n) items"
      have "mapGet ?m2 n = mapGet ?m1 n"
      proof (cases "?F = []")
        case True
        then show ?thesis by (simp add: overlay_entry [OF n])
      next
        case False
        let ?l0 = "spreadInto [] (mapGet m n)"
        let ?l1 = "fold (\<lambda>item l. spreadInto l item) ?F ?l0"
        have d0: "distinct (map fst ?l0)" by (simp add: distinct_spreadInto)
        have m1: "mapGet ?m1 n = JObj ?l1" using False by (simp add: overlay_entry [OF n])
        have copy: "spreadInto [] (JObj ?l1) = ?l1"
          by (intro spreadInto_copy distinct_spread_fold d0)
        have "mapGet ?m2 n = JObj (fold (\<lambda>item l. spreadInto l item) ?F (spreadInto [] (mapGet ?m1 n)))"
          using False overlay_entry [OF n, of items ?m1] by simp
        also have "\<dots> = JObj (fold (\<lambda>item l. spreadInto l item) ?F ?l1)" by (simp only: m1 copy)
        also have "\<dots> = JObj ?l1" by (simp only: spread_fold_idem [OF d0])
        finally show ?thesis by (simp only: m1)
      qed
      moreover from True obtain v1 where "map_of ?m1 n = Some v1"
        by (metis map_of_eq_None_iff not_Some_eq)
      moreover from True2 obtain v2 where "map_of ?m2 n = Some v2"
        by (metis map_of_eq_None_iff not_Some_eq)
      ultimately show ?thesis by (simp add: mapGet_def)
    qed
  qed
qed

lemma objSet_twice: "objSet (objSet l k v) k v = objSet l k v"
  by (induction l) auto

lemma goodMap_nil: "goodMap []"
  by (simp add: goodMap_def)

lemma nextStateOf_local_idem:
  assumes "\<not> (truthy widgetState \<and> typeofObject widgetState)"
    and "nextStateOf toolInput widgetState cart = Inr ns"
  shows "nextStateOf toolInput widgetState ns = Inr ns"
proof -
  let ?b = "baseStateOf widgetState cart"
  let ?idx = "fold indexStep (cartItems ?b) []"
  let ?res = "fold overlayStep (cartItems toolInput) ?idx"
  let ?l = "objSet (spreadInto [] ?b) ''items'' (JArr (map snd ?res))"
  from assms(2) have ns: "ns = JObj ?l" by (simp add: nextStateOf_closed)
  have base: "baseStateOf widgetState (JObj ?l) = JObj ?l"
    using assms(1) by (auto simp: baseStateOf_def nullishCoalesce_def)
  have items: "cartItems (JObj ?l) = map snd ?res" by (rule cartItems_with_items)
  have good0: "goodMap ?idx" by (intro goodMap_fold_index goodMap_nil)
  have good1: "goodMap ?res" using good0 by (rule goodMap_fold_overlay)
  have reindex: "fold indexStep (map snd ?res) [] = ?res"
    using reindex_values [of "[]" ?res] good1 by simp
  have again: "fold overlayStep (cartItems toolInput) ?res = ?res"
    using good0 by (rule overlay_idem)
  have copy: "spreadInto [] (JObj ?l) = ?l"
    by (intro spreadInto_copy distinct_objSet distinct_spreadInto) simp
  have "nextStateOf toolInput widgetState (JObj ?l) = Inr (JObj ?l)"
    by (simp only: nextStateOf_closed [of toolInput widgetState "JObj ?l"] base items reindex again
        copy objSet_twice)
  with ns show ?thesis by simp
qed

lemma nextStateOf_host:
  "truthy widgetState \<and> typeofObject widgetState \<Longrightarrow>
   nextStateOf toolInput widgetState c = nextStateOf toolInput widgetState c'"
  by (simp add: nextStateOf_closed baseStateOf_def)

lemma nextStateOf_idem:
  assumes "nextStateOf toolInput widgetState cart = Inr ns"
  shows "nextStateOf toolInput widgetState ns = Inr ns"
proof (cases "truthy widgetState \<and> typeofObject widgetState")
  case True
  from nextStateOf_host [OF True, of toolInput ns cart] assms show ?thesis by simp
next
  case False
  from nextStateOf_local_idem [OF False assms] show ?thesis .
qed

lemma second_run:
  assumes "\<not> shouldForceSyncFromResponse widgetState toolOutput"
  shows "\<exists>o2. mergeEffect toolInput toolOutput widgetState (fst (mergeEffect toolInput toolOutput widgetState e))
            = (fst (mergeEffect toolInput toolOutput widgetState e), o2)
          \<and> (o2 = EarlyReturn \<or> o2 = Skipped
              \<or> (\<exists>err. o2 = Threw err \<and> snd (mergeEffect toolInput toolOutput widgetState e) = Threw err))"
proof (cases "nullish toolInput \<and> nullish toolOutput \<and> nullish widgetState")
  case True
  then show ?thesis by (simp add: mergeEffect_def)
next
  case False
  obtain kvs where ns: "nextStateOf toolInput widgetState (cartState e) = Inr (JObj kvs)"
    using nextStateOf_total by blast
  let ?ns = "JObj kvs"
  note first = mergeEffect_run [OF False ns]
  have again: "\<And>e'. cartState e' = cartState e \<or> cartState e' = ?ns \<Longrightarrow>
      mergeEffect toolInput toolOutput widgetState e'
        = changeDetector (shouldForceSyncFromResponse widgetState toolOutput) ?ns e'"
    using nextStateOf_idem [OF ns] ns by (intro mergeEffect_run [OF False]) auto
  show ?thesis
  proof (cases "JSON_stringify ?ns")
    case (Inl err)
    with assms show ?thesis by (simp add: first again changeDetector_def)
  next
    case (Inr s)
    show ?thesis
    proof (cases "s = lastMergedStateRef e")
      case True
      with assms Inr show ?thesis by (simp add: first again changeDetector_def)
    next
      case differs: False
      show ?thesis
      proof (cases "widgetStateEqual ?ns (cartState e)")
        case (Inl err)
        with assms Inr differs show ?thesis
          by (simp add: first again changeDetector_def)
      next
        case eq: (Inr b)
        with assms Inr differs show ?thesis
          by (cases b) (simp_all add: first again changeDetector_def setCartState_def)
      qed
    qed
  qed
qed

text \<open>
  Claim C4, as the code has it. When resync is not forced, the second of two runs of
  the effect on the same three inputs, with no edit between them, publishes nothing
  and leaves the engine as the first run left it: it returns at line 120, or skips at
  line 161, or raises the error the first run raised. So the two runs publish at most
  once.
\<close>

theorem repeated_merge_suppressed:
  assumes "\<not> shouldForceSyncFromResponse widgetState toolOutput"
  shows "fst (mergeTwice toolInput toolOutput widgetState e)
           = fst (mergeEffect toolInput toolOutput widgetState e)
       \<and> \<not> published (snd (mergeEffect toolInput toolOutput widgetState
                              (fst (mergeEffect toolInput toolOutput widgetState e))))
       \<and> (snd (mergeEffect toolInput toolOutput widgetState
                  (fst (mergeEffect toolInput toolOutput widgetState e))) = EarlyReturn
          \<or> snd (mergeEffect toolInput toolOutput widgetState
                  (fst (mergeEffect toolInput toolOutput widgetState e))) = Skipped
          \<or> (\<exists>err. snd (mergeEffect toolInput toolOutput widgetState
                          (fst (mergeEffect toolInput toolOutput widgetState e))) = Threw err
                 \<and> snd (mergeEffect toolInput toolOutput widgetState e) = Threw err))
       \<and> publishCount (snd (mergeTwice toolInput toolOutput widgetState e)) \<le> 1"
proof -
  from second_run [OF assms, of toolInput e] obtain o2 where
    o2: "mergeEffect toolInput toolOutput widgetState (fst (mergeEffect toolInput toolOutput widgetState e))
            = (fst (mergeEffect toolInput toolOutput widgetState e), o2)"
      "o2 = EarlyReturn \<or> o2 = Skipped
         \<or> (\<exists>err. o2 = Threw err \<and> snd (mergeEffect toolInput toolOutput widgetState e) = Threw err)"
    by blast
  from o2(2) have quiet: "\<not> published o2" by auto
  from o2 quiet show ?thesis
    by (simp add: mergeTwice_def publishCount_def split_beta Let_def)
qed

theorem repeated_merge_suppressed_witness:
  "\<not> shouldForceSyncFromResponse JNull JNull
   \<and> mergeTwice (JObj [(''items'', JArr [JObj [(''name'', JStr ''A''), (''quantity'', JNum 1)]])]) JNull JNull
        (initialEngine JNull)
      = (\<lparr>cartState = JObj [(''items'', JArr [JObj [(''name'', JStr ''A''), (''quantity'', JNum 1)]])],
          lastMergedStateRef = Some (''{'' @ [CHR 0x22] @ ''items'' @ [CHR 0x22] @ '':[{'' @ [CHR 0x22] @ ''name''
             @ [CHR 0x22] @ '':'' @ [CHR 0x22] @ ''A'' @ [CHR 0x22] @ '','' @ [CHR 0x22] @ ''quantity''
             @ [CHR 0x22] @ '':1}]}'')\<rparr>,
         [Published (JObj [(''items'', JArr [JObj [(''name'', JStr ''A''), (''quantity'', JNum 1)]])]), Skipped])
   \<and> publishCount (snd (mergeTwice (JObj [(''items'', JArr [JObj [(''name'', JStr ''A''), (''quantity'', JNum 1)]])])
        JNull JNull (initialEngine JNull))) \<le> 1"
  using repeated_merge_suppressed [of JNull JNull
      "JObj [(''items'', JArr [JObj [(''name'', JStr ''A''), (''quantity'', JNum 1)]])]" "initialEngine JNull"]
  by (simp add: run_defs mergeTwice_def publishCount_def)

text \<open>
  The claim as stated fails in both directions: at the first input resync is forced
  (\<^verbatim>\<open>widgetState\<close> null, \<^verbatim>\<open>toolOutput\<close> \<^verbatim>\<open>{}\<close>) and both runs publish; at the second
  the merged state equals the local cart and neither does.
\<close>

theorem repeated_merge_counterexample:
  "publishCount (snd (mergeTwice JNull (JObj []) JNull (initialEngine JNull))) = 2
   \<and> publishCount (snd (mergeTwice JNull JNull (JObj [(''items'', JArr [])])
                          (initialEngine (JObj [(''items'', JArr [])])))) = 0"
  by (simp add: run_defs mergeTwice_def publishCount_def)

end
